theory Spec2Isabelle
  imports Complex_Main "HOL-Library.Multiset" "HOL-Library.Sublist" "HOL-Library.Product_Lexorder"
begin

section \<open>Tables\<close>

text \<open>
  A pandas data frame with a row index: the column labels in order, the columns whose
  dtype is numeric, and the rows in order, each a label with its cells. A cell is
  \<open>None\<close> where pandas holds NaN/null. Row labels may repeat, as in pandas.
\<close>

record ('k, 'v) frame =
  columns :: "string list"
  numeric :: "string \<Rightarrow> bool"
  rows :: "('k \<times> (string \<Rightarrow> 'v option)) list"

datatype error = ValueError | KeyError | IndexError | AttributeError | SystemExit

definition index :: "('k, 'v) frame \<Rightarrow> 'k list" where
  "index f = map fst (rows f)"

text \<open>The distinct labels of a list, in the order of their first occurrence.\<close>

definition unique :: "'a list \<Rightarrow> 'a list" where
  "unique xs = rev (remdups (rev xs))"

text \<open>\<open>Index.intersection\<close>: the labels of the left index that occur in the right one, each once.\<close>

definition intersection :: "'a list \<Rightarrow> 'a list \<Rightarrow> 'a list" where
  "intersection xs ys = unique (filter (\<lambda>x. x \<in> set ys) xs)"

text \<open>
  \<open>df.loc[label, col]\<close> read as a scalar, as \<open>if pd.notna(df.loc[label, col])\<close> needs it:
  a label that occurs once gives its cell; a repeated label gives a Series, whose truth value
  raises ValueError; a missing label raises KeyError.
\<close>

definition loc_get :: "('k, 'v) frame \<Rightarrow> 'k \<Rightarrow> string \<Rightarrow> error + 'v option" where
  "loc_get f k c =
     (case filter (\<lambda>r. fst r = k) (rows f) of
        [] \<Rightarrow> Inl KeyError
      | [r] \<Rightarrow> Inr (snd r c)
      | _ \<Rightarrow> Inl ValueError)"

text \<open>\<open>df.loc[label, col] = v\<close> for a label of the index: every row carrying the label is set.\<close>

definition loc_set :: "('k, 'v) frame \<Rightarrow> 'k \<Rightarrow> string \<Rightarrow> 'v option \<Rightarrow> ('k, 'v) frame" where
  "loc_set f k c v =
     f\<lparr>rows := map (\<lambda>r. if fst r = k then (fst r, (snd r)(c := v)) else r) (rows f)\<rparr>"

section \<open>Aggregator: \<open>aggregate_transects\<close>\<close>

text \<open>The inner loop \<open>for col in cols_to_update\<close> for one transect id.\<close>

fun update_cols :: "('k, 'v) frame \<Rightarrow> 'k \<Rightarrow> string list \<Rightarrow> ('k, 'v) frame \<Rightarrow> error + ('k, 'v) frame" where
  "update_cols site_gdf transect_id [] base_gdf = Inr base_gdf"
| "update_cols site_gdf transect_id (col # cols) base_gdf =
     (case loc_get site_gdf transect_id col of
        Inl e \<Rightarrow> Inl e
      | Inr None \<Rightarrow> update_cols site_gdf transect_id cols base_gdf
      | Inr (Some v) \<Rightarrow> update_cols site_gdf transect_id cols (loc_set base_gdf transect_id col (Some v)))"

text \<open>The outer loop \<open>for transect_id in common_ids\<close>.\<close>

fun update_ids :: "('k, 'v) frame \<Rightarrow> string list \<Rightarrow> 'k list \<Rightarrow> ('k, 'v) frame \<Rightarrow> error + ('k, 'v) frame" where
  "update_ids site_gdf cols_to_update [] base_gdf = Inr base_gdf"
| "update_ids site_gdf cols_to_update (transect_id # ids) base_gdf =
     (case update_cols site_gdf transect_id cols_to_update base_gdf of
        Inl e \<Rightarrow> Inl e
      | Inr b \<Rightarrow> update_ids site_gdf cols_to_update ids b)"

text \<open>
  The body of the loop over the per-site files, for a file that exists: choose the columns,
  keep those present in both frames, and copy the non-null cells of the common ids.
\<close>

definition cols_to_update :: "string list option \<Rightarrow> ('k, 'v) frame \<Rightarrow> ('k, 'v) frame \<Rightarrow> string list" where
  "cols_to_update update_columns base_gdf site_gdf =
     (let update_cols = (case update_columns of
                           None \<Rightarrow> filter (numeric site_gdf) (columns site_gdf)
                         | Some cs \<Rightarrow> cs)
      in filter (\<lambda>col. col \<in> set (columns site_gdf) \<and> col \<in> set (columns base_gdf)) update_cols)"

definition merge_site :: "string list option \<Rightarrow> ('k, 'v) frame \<Rightarrow> ('k, 'v) frame \<Rightarrow> error + ('k, 'v) frame" where
  "merge_site update_columns base_gdf site_gdf =
     (let cols = cols_to_update update_columns base_gdf site_gdf in
      if cols = [] then Inr base_gdf
      else let common_ids = intersection (index base_gdf) (index site_gdf) in
        if common_ids = [] then Inr base_gdf
        else update_ids site_gdf cols common_ids base_gdf)"

text \<open>The loop over \<open>per_site_transects\<close>; \<open>None\<close> is a path that does not exist (skipped).\<close>

fun merge_sites :: "string list option \<Rightarrow> ('k, 'v) frame option list \<Rightarrow> ('k, 'v) frame \<Rightarrow> error + ('k, 'v) frame" where
  "merge_sites update_columns [] base_gdf = Inr base_gdf"
| "merge_sites update_columns (None # fs) base_gdf = merge_sites update_columns fs base_gdf"
| "merge_sites update_columns (Some site_gdf # fs) base_gdf =
     (case merge_site update_columns base_gdf site_gdf of
        Inl e \<Rightarrow> Inl e
      | Inr b \<Rightarrow> merge_sites update_columns fs b)"

text \<open>
  \<open>aggregate_transects\<close>: the frame written to the output file, or the exception that
  leaves the tool with exit code 1.
\<close>

definition aggregate_transects ::
  "('k, 'v) frame \<Rightarrow> ('k, 'v) frame option list \<Rightarrow> string list option \<Rightarrow> error + ('k, 'v) frame" where
  "aggregate_transects base_gdf per_site_transects update_columns =
     (if per_site_transects = [] then Inr base_gdf
      else merge_sites update_columns per_site_transects base_gdf)"

text \<open>
  The cell the aggregator leaves at a position whose label is \<open>k\<close>, in a column it updates:
  the non-null cell of the site frame, else the old cell.
\<close>

definition site_value :: "('k, 'v) frame \<Rightarrow> 'k \<Rightarrow> string \<Rightarrow> 'v option \<Rightarrow> 'v option" where
  "site_value site_gdf k col old = (case loc_get site_gdf k col of Inr (Some v) \<Rightarrow> Some v | _ \<Rightarrow> old)"

section \<open>Trend merge: \<open>calculate_linear_models\<close>\<close>

text \<open>
  \<open>DataFrame.reindex(target)\<close>, as \<open>DataFrame.update\<close> calls it on the other frame: an index
  equal to the target is kept as it is; otherwise repeated labels raise ValueError
  (cannot reindex on an axis with duplicate labels), and a label of the target that the
  frame lacks gives a row of \<open>fill\<close>.
\<close>

definition reindex ::
  "'v option \<Rightarrow> ('k, 'v) frame \<Rightarrow> 'k list \<Rightarrow> error + (string \<Rightarrow> 'v option) list" where
  "reindex fill f target =
     (if index f = target then Inr (map snd (rows f))
      else if \<not> distinct (index f) then Inl ValueError
      else Inr (map (\<lambda>k. case map_of (rows f) k of None \<Rightarrow> (\<lambda>c. fill) | Some r \<Rightarrow> r) target))"

text \<open>
  \<open>self.update(other)\<close>: for every column of both frames, a non-null cell of the aligned
  other frame replaces the cell of \<open>self\<close>; a null one leaves it.
\<close>

definition update_row ::
  "string list \<Rightarrow> string list \<Rightarrow> (string \<Rightarrow> 'v option) \<Rightarrow> (string \<Rightarrow> 'v option) \<Rightarrow> (string \<Rightarrow> 'v option)" where
  "update_row self_cols other_cols this that =
     (\<lambda>c. if c \<in> set self_cols \<and> c \<in> set other_cols
          then (case that c of None \<Rightarrow> this c | Some v \<Rightarrow> Some v)
          else this c)"

definition df_update :: "('k, 'v) frame \<Rightarrow> ('k, 'v) frame \<Rightarrow> error + ('k, 'v) frame" where
  "df_update self other =
     (case reindex None other (index self) of
        Inl e \<Rightarrow> Inl e
      | Inr aligned \<Rightarrow>
          Inr (self\<lparr>rows := map (\<lambda>(r, that). (fst r, update_row (columns self) (columns other) (snd r) that))
                                (zip (rows self) aligned)\<rparr>))"

text \<open>
  \<open>drop_duplicates()\<close>: of the rows whose cells agree on every column, the first is kept
  (labels are not compared, nulls compare equal).
\<close>

fun keep_first :: "('a \<Rightarrow> 'b) \<Rightarrow> 'b list \<Rightarrow> 'a list \<Rightarrow> 'a list" where
  "keep_first key seen [] = []"
| "keep_first key seen (x # xs) =
     (if key x \<in> set seen then keep_first key seen xs
      else x # keep_first key (key x # seen) xs)"

definition drop_duplicates :: "('k, 'v) frame \<Rightarrow> ('k, 'v) frame" where
  "drop_duplicates f = f\<lparr>rows := keep_first (\<lambda>r. map (snd r) (columns f)) [] (rows f)\<rparr>"

text \<open>\<open>df[cols]\<close>: the frame restricted to the given columns.\<close>

definition select :: "('k, 'v) frame \<Rightarrow> string list \<Rightarrow> ('k, 'v) frame" where
  "select f cols = f\<lparr>columns := cols\<rparr>"

text \<open>
  \<open>left.join(right)\<close>, a left join on the index: each row of \<open>left\<close>, in order, once for
  every row of \<open>right\<close> with its label, or once with nulls in the columns of \<open>right\<close>
  when there is none. Overlapping column names raise ValueError.
\<close>

definition join_row ::
  "string list \<Rightarrow> (string \<Rightarrow> 'v option) \<Rightarrow> (string \<Rightarrow> 'v option) \<Rightarrow> (string \<Rightarrow> 'v option)" where
  "join_row right_cols l r = (\<lambda>c. if c \<in> set right_cols then r c else l c)"

definition join_rows ::
  "('k, 'v) frame \<Rightarrow> 'k \<times> (string \<Rightarrow> 'v option) \<Rightarrow> ('k \<times> (string \<Rightarrow> 'v option)) list" where
  "join_rows right l =
     (case filter (\<lambda>m. fst m = fst l) (rows right) of
        [] \<Rightarrow> [(fst l, join_row (columns right) (snd l) (\<lambda>c. None))]
      | ms \<Rightarrow> map (\<lambda>m. (fst l, join_row (columns right) (snd l) (snd m))) ms)"

definition join :: "('k, 'v) frame \<Rightarrow> ('k, 'v) frame \<Rightarrow> error + ('k, 'v) frame" where
  "join left right =
     (if set (columns left) \<inter> set (columns right) \<noteq> {} then Inl ValueError
      else Inr (left\<lparr>
        columns := columns left @ columns right,
        numeric := (\<lambda>c. if c \<in> set (columns right) then numeric right c else numeric left c),
        rows := concat (map (join_rows right) (rows left))\<rparr>))"

text \<open>
  The merge of \<open>calculate_linear_models\<close>: \<open>transects.update(trends.drop_duplicates())\<close>, then
  the columns of \<open>trends\<close> that \<open>transects\<close> lacks are joined on.
\<close>

definition update_transects :: "('k, 'v) frame \<Rightarrow> ('k, 'v) frame \<Rightarrow> error + ('k, 'v) frame" where
  "update_transects transects trends =
     (case df_update transects (drop_duplicates trends) of
        Inl e \<Rightarrow> Inl e
      | Inr t \<Rightarrow>
          let new_columns = filter (\<lambda>c. c \<notin> set (columns t)) (columns trends) in
          if new_columns \<noteq> [] then join t (select trends new_columns) else Inr t)"

text \<open>
  The rows of a table whose label the fragment does not carry, in order, each with its cells
  in the given columns.
\<close>

definition rows_outside ::
  "('k, 'v) frame \<Rightarrow> string list \<Rightarrow> ('k, 'v) frame \<Rightarrow> ('k \<times> 'v option list) list" where
  "rows_outside fragment cols t =
     map (\<lambda>r. (fst r, map (snd r) cols)) (filter (\<lambda>r. fst r \<notin> set (index fragment)) (rows t))"

text \<open>The cells a table holds in column \<open>c\<close> at the rows labelled \<open>k\<close>.\<close>

definition cells_at :: "('k, 'v) frame \<Rightarrow> 'k \<Rightarrow> string \<Rightarrow> 'v option set" where
  "cells_at t k c = (\<lambda>r. snd r c) ` {r \<in> set (rows t). fst r = k}"

subsection \<open>A base table and a fragment\<close>

text \<open>
  Three transects, \<open>t1\<close> without a slope; the fragment brings the slope of \<open>t1\<close> with its
  interval and a trend, nulls and a trend for \<open>t2\<close>, and a transect \<open>t3\<close> the base lacks.
\<close>

definition base_example :: "(string, real) frame" where
  "base_example =
     \<lparr>columns = [''beach_slope'', ''cil'', ''ciu''],
      numeric = (\<lambda>c. True),
      rows = [(''t1'', \<lambda>c. None),
              (''t2'', (\<lambda>c. None)(''beach_slope'' := Some 0.05, ''cil'' := Some 0.04, ''ciu'' := Some 0.06)),
              (''t4'', (\<lambda>c. None)(''beach_slope'' := Some 0.1))]\<rparr>"

definition fragment_example :: "(string, real) frame" where
  "fragment_example =
     \<lparr>columns = [''beach_slope'', ''cil'', ''ciu'', ''trend''],
      numeric = (\<lambda>c. True),
      rows = [(''t1'', (\<lambda>c. None)(''beach_slope'' := Some 0.085, ''cil'' := Some 0.07,
                                   ''ciu'' := Some 0.10, ''trend'' := Some 1.5)),
              (''t2'', (\<lambda>c. None)(''trend'' := Some (- 0.3))),
              (''t3'', (\<lambda>c. None)(''beach_slope'' := Some 0.2))]\<rparr>"

text \<open>What \<open>aggregate_transects\<close> writes for the two tables, and what \<open>calculate_linear_models\<close> does.\<close>

definition merged_example :: "(string, real) frame" where
  "merged_example =
     \<lparr>columns = [''beach_slope'', ''cil'', ''ciu''],
      numeric = (\<lambda>c. True),
      rows = [(''t1'', (\<lambda>c. None)(''beach_slope'' := Some 0.085, ''cil'' := Some 0.07, ''ciu'' := Some 0.10)),
              (''t2'', (\<lambda>c. None)(''beach_slope'' := Some 0.05, ''cil'' := Some 0.04, ''ciu'' := Some 0.06)),
              (''t4'', (\<lambda>c. None)(''beach_slope'' := Some 0.1))]\<rparr>"

definition joined_example :: "(string, real) frame" where
  "joined_example =
     \<lparr>columns = [''beach_slope'', ''cil'', ''ciu'', ''trend''],
      numeric = (\<lambda>c. True),
      rows = [(''t1'', (\<lambda>c. None)(''beach_slope'' := Some 0.085, ''cil'' := Some 0.07,
                                   ''ciu'' := Some 0.10, ''trend'' := Some 1.5)),
              (''t2'', (\<lambda>c. None)(''beach_slope'' := Some 0.05, ''cil'' := Some 0.04,
                                   ''ciu'' := Some 0.06, ''trend'' := Some (- 0.3))),
              (''t4'', (\<lambda>c. None)(''beach_slope'' := Some 0.1))]\<rparr>"

section \<open>Observation store: \<open>process_site\<close> of the batch stage\<close>

subsection \<open>Dates and their strings\<close>

text \<open>
  A calendar date is (year, month, day) and a timestamp a date with the nanoseconds since
  midnight; the lexicographic order of the tuples is the order in time. pandas timestamps
  lie in the years 1677 to 2262, so a year prints with four digits.
\<close>

type_synonym date = "nat \<times> nat \<times> nat"
type_synonym timestamp = "date \<times> nat"

definition is_leap :: "nat \<Rightarrow> bool" where
  "is_leap y = (y mod 4 = 0 \<and> (y mod 100 \<noteq> 0 \<or> y mod 400 = 0))"

definition days_in_month :: "nat \<Rightarrow> nat \<Rightarrow> nat" where
  "days_in_month y m =
     (if m = 2 then (if is_leap y then 29 else 28)
      else if m = 4 \<or> m = 6 \<or> m = 9 \<or> m = 11 then 30 else 31)"

definition valid_date :: "date \<Rightarrow> bool" where
  "valid_date dt = (case dt of (y, m, d) \<Rightarrow>
     1000 \<le> y \<and> y \<le> 9999 \<and> 1 \<le> m \<and> m \<le> 12 \<and> 1 \<le> d \<and> d \<le> days_in_month y m)"

text \<open>\<open>d + timedelta(days=1)\<close>.\<close>

definition add_one_day :: "date \<Rightarrow> date" where
  "add_one_day dt = (case dt of (y, m, d) \<Rightarrow>
     if d < days_in_month y m then (y, m, d + 1)
     else if m < 12 then (y, m + 1, 1)
     else (y + 1, 1, 1))"

definition digit :: "nat \<Rightarrow> char" where
  "digit n = ''0123456789'' ! (n mod 10)"

definition pad2 :: "nat \<Rightarrow> string" where
  "pad2 n = [digit (n div 10), digit n]"

definition pad4 :: "nat \<Rightarrow> string" where
  "pad4 n = [digit (n div 1000), digit (n div 100), digit (n div 10), digit n]"

text \<open>\<open>str(d)\<close> of a date: \<open>YYYY-MM-DD\<close>.\<close>

definition date_str :: "date \<Rightarrow> string" where
  "date_str dt = (case dt of (y, m, d) \<Rightarrow> pad4 y @ ''-'' @ pad2 m @ ''-'' @ pad2 d)"

text \<open>Python's \<open><\<close> on strings: lexicographic by character code.\<close>

fun str_lt :: "string \<Rightarrow> string \<Rightarrow> bool" where
  "str_lt [] [] = False"
| "str_lt [] (y # ys) = True"
| "str_lt (x # xs) [] = False"
| "str_lt (x # xs) (y # ys) =
     ((of_char x :: nat) < of_char y \<or> (x = y \<and> str_lt xs ys))"

subsection \<open>The stored series and the start date\<close>

text \<open>
  A row of \<open>transect_time_series.csv\<close>: the date, the satellite, and the chainage of each
  transect (null where no intersection was found).
\<close>

record observation =
  dates :: timestamp
  satname :: string
  cross_distance :: "(string \<times> real option) list"

text \<open>
  \<open>str(df.dates.max().date() + timedelta(days=1))\<close> for the stored frame. The maximum of an
  empty column is NaT, which prints as \<open>NaT\<close>.
\<close>

definition next_start :: "observation list \<Rightarrow> string" where
  "next_start df =
     (case df of
        [] \<Rightarrow> ''NaT''
      | ob # obs \<Rightarrow> date_str (add_one_day (fst (fold max (map dates obs) (dates ob)))))"

text \<open>
  The start of \<open>process_site\<close> in \<open>batch_process_nz_wrapper.py\<close>: the frame \<open>df\<close> the new
  results are appended to, and \<open>min_date\<close>. \<open>existing\<close> is the stored series, \<open>None\<close> when the
  file does not exist; a \<open>force_start_date\<close> that is absent or empty is not used.
\<close>

definition wrapper_start ::
  "string option \<Rightarrow> string \<Rightarrow> observation list option \<Rightarrow> observation list \<times> string" where
  "wrapper_start force_start_date start_date existing =
     (let (df, min_date) =
        (if force_start_date \<noteq> None \<and> force_start_date \<noteq> Some []
         then ([], the force_start_date)
         else (case existing of
                 Some stored \<Rightarrow> (stored, next_start stored)
               | None \<Rightarrow> ([], start_date)))
      in (df, if str_lt min_date start_date then start_date else min_date))"

text \<open>
  The same in \<open>scripts/batch_process_NZ.py\<close>, where the override is the environment variable
  \<open>FORCE_START_DATE\<close> (stripped, empty when unset) and the lower bound
  \<open>TEST_START_DATE\<close> applies in \<open>TEST_MODE\<close> only, on the branch that read the file.
\<close>

definition script_start ::
  "string \<Rightarrow> bool \<Rightarrow> string \<Rightarrow> observation list option \<Rightarrow> observation list \<times> string" where
  "script_start FORCE_START_DATE TEST_MODE TEST_START_DATE existing =
     (if FORCE_START_DATE \<noteq> [] then ([], FORCE_START_DATE)
      else (case existing of
              Some stored \<Rightarrow>
                (let min_date = next_start stored in
                 (stored, if TEST_MODE \<and> str_lt min_date TEST_START_DATE
                          then TEST_START_DATE else min_date))
            | None \<Rightarrow> ([], if TEST_MODE then TEST_START_DATE else ''1984-01-01'')))"

text \<open>A stored series from 2020-01-01 to 2020-06-30.\<close>

definition stored_example :: "observation list" where
  "stored_example =
     [\<lparr>dates = ((2020, 1, 1), 79200000000000), satname = ''L8'', cross_distance = [(''t1'', Some 101.5)]\<rparr>,
      \<lparr>dates = ((2020, 6, 30), 79500000000000), satname = ''L9'', cross_distance = [(''t1'', None)]\<rparr>]"

section \<open>Outlier filter: \<open>despike\<close>\<close>

text \<open>
  A pandas Series: the index labels with their values in order, \<open>None\<close> for NaN.
\<close>

type_synonym 'i series = "('i \<times> real option) list"

definition dropna :: "'i series \<Rightarrow> 'i series" where
  "dropna s = filter (\<lambda>p. snd p \<noteq> None) s"

text \<open>\<open>s.tolist()\<close> and \<open>s.index.tolist()\<close> of a series without nulls.\<close>

definition tolist :: "'i series \<Rightarrow> real list" where
  "tolist s = map (\<lambda>p. the (snd p)) s"

definition index_tolist :: "'i series \<Rightarrow> 'i list" where
  "index_tolist s = map fst s"

text \<open>\<open>pd.Series(values, index=labels)\<close>: lengths that differ raise ValueError.\<close>

definition Series :: "real list \<Rightarrow> 'i list \<Rightarrow> error + 'i series" where
  "Series values labels =
     (if length values = length labels then Inr (zip labels (map Some values)) else Inl ValueError)"

subsection \<open>The outlier test of the library\<close>

text \<open>
  \<open>despike\<close> calls \<open>SDS_transects.identify_outliers\<close> of the CoastSat package, which the
  scripts import. The function copies its two lists and scans the chainages from the start:
  the first point is an outlier when it is further than the threshold from the second, the
  last point when it is further than the threshold from the one before it, and a point in
  between when it is further than the threshold from both neighbours. The first outlier
  met is popped from both lists and the scan ends; \<open>k\<close> is then incremented, and the scan
  starts again from the first point as long as \<open>k\<close> is below the new length. A scan that
  meets no outlier ends the loop. On a list of one point the test of the first point reads
  the second and raises IndexError.
\<close>

definition pop :: "nat \<Rightarrow> 'a list \<Rightarrow> 'a list" where
  "pop k xs = take k xs @ drop (Suc k) xs"

definition is_outlier :: "real \<Rightarrow> real list \<Rightarrow> nat \<Rightarrow> bool" where
  "is_outlier cross_change chainage_temp k =
     (if k = 0 then \<bar>chainage_temp ! k - chainage_temp ! (k + 1)\<bar> > cross_change
      else if k = length chainage_temp - 1
        then \<bar>chainage_temp ! k - chainage_temp ! (k - 1)\<bar> > cross_change
      else \<bar>chainage_temp ! k - chainage_temp ! (k - 1)\<bar> > cross_change \<and>
           \<bar>chainage_temp ! k - chainage_temp ! (k + 1)\<bar> > cross_change)"

function outlier_loop ::
  "real \<Rightarrow> real list \<Rightarrow> 'i list \<Rightarrow> nat \<Rightarrow> error + real list \<times> 'i list" where
  "outlier_loop cross_change chainage_temp dates_temp k =
     (if k < length chainage_temp then
        (if length chainage_temp = 1 then Inl IndexError
         else (case find (is_outlier cross_change chainage_temp) [0..<length chainage_temp] of
                 None \<Rightarrow> Inr (chainage_temp, dates_temp)
               | Some j \<Rightarrow>
                   if j < length dates_temp
                   then outlier_loop cross_change (pop j chainage_temp) (pop j dates_temp) (j + 1)
                   else Inl IndexError))
      else Inr (chainage_temp, dates_temp))"
  by pat_completeness auto
termination
proof (relation "measure (\<lambda>(cross_change, chainage_temp, dates_temp, k). length chainage_temp)")
  show "wf (measure (\<lambda>(cross_change, chainage_temp, dates_temp, k). length chainage_temp))"
    by simp
next
  fix cross_change :: real and chainage_temp :: "real list" and dates_temp :: "'i list"
    and k j :: nat
  assume "find (is_outlier cross_change chainage_temp) [0..<length chainage_temp] = Some j"
  then have "j < length chainage_temp" by (auto simp: find_Some_iff)
  then show "((cross_change, pop j chainage_temp, pop j dates_temp, j + 1),
              (cross_change, chainage_temp, dates_temp, k))
             \<in> measure (\<lambda>(cross_change, chainage_temp, dates_temp, k). length chainage_temp)"
    by (simp add: pop_def)
qed

declare outlier_loop.simps [simp del]

definition identify_outliers :: "real list \<Rightarrow> 'i list \<Rightarrow> real \<Rightarrow> error + real list \<times> 'i list" where
  "identify_outliers chainage dates_list cross_change = outlier_loop cross_change chainage dates_list 0"

subsection \<open>The two versions of \<open>despike\<close>\<close>

text \<open>\<open>despike\<close> of \<open>tidal_correction.py\<close> and of the tidal-correction wrapper.\<close>

definition despike :: "real \<Rightarrow> 'i series \<Rightarrow> error + 'i series" where
  "despike threshold chainage =
     (let chainage = dropna chainage in
      case identify_outliers (tolist chainage) (index_tolist chainage) threshold of
        Inl e \<Rightarrow> Inl e
      | Inr (kept, kept_dates) \<Rightarrow> Series kept kept_dates)"

text \<open>\<open>despike\<close> of \<open>linear_models.py\<close>, which returns an empty series when no value is left.\<close>

definition despike_lm :: "real \<Rightarrow> 'i series \<Rightarrow> error + 'i series" where
  "despike_lm threshold chainage =
     (let chainage = dropna chainage in
      if length chainage = 0 then Inr []
      else (case identify_outliers (tolist chainage) (index_tolist chainage) threshold of
              Inl e \<Rightarrow> Inl e
            | Inr (kept, kept_dates) \<Rightarrow> Series kept kept_dates))"

text \<open>A column with a null and a spike, and a column with one value.\<close>

definition chainage_example :: "nat series" where
  "chainage_example = [(1, Some 100), (2, None), (3, Some 103), (4, Some 190), (5, Some 101)]"

definition one_point_example :: "nat series" where
  "one_point_example = [(1, None), (2, Some 100), (3, None)]"

section \<open>Slope estimator\<close>

subsection \<open>Rounding to the 10-minute grid\<close>

text \<open>
  \<open>round("10min")\<close> of a timestamp: to the nearest multiple of ten minutes, a tie going to
  the even multiple (a day holds an even number of ten-minute steps, so the parity within
  the day is the parity since the epoch). Rounding up past midnight gives the next day.
\<close>

definition ten_minutes :: nat where
  "ten_minutes = 600000000000"

definition round_10min :: "timestamp \<Rightarrow> timestamp" where
  "round_10min t = (case t of (d, ns) \<Rightarrow>
     (let q = ns div ten_minutes; r = ns mod ten_minutes;
          q' = (if 2 * r > ten_minutes \<or> (2 * r = ten_minutes \<and> odd q) then q + 1 else q)
      in if q' * ten_minutes \<ge> 144 * ten_minutes then (add_one_day d, 0) else (d, q' * ten_minutes)))"

subsection \<open>Tables of the stage\<close>

text \<open>
  A row of \<open>transects_extended.geojson\<close>, indexed by its \<open>id\<close>, with the columns the stage reads
  and writes (null is \<open>None\<close>).
\<close>

record transect =
  transect_id :: string
  site_id :: "string option"
  beach_slope :: "real option"
  cil :: "real option"
  ciu :: "real option"

text \<open>
  \<open>transects.loc[key, 'beach_slope'] = value\<close>: every row with the label is set; a label the
  index lacks is appended as a new row, null elsewhere.
\<close>

definition set_beach_slope :: "transect list \<Rightarrow> string \<Rightarrow> real \<Rightarrow> transect list" where
  "set_beach_slope transects key v =
     (if key \<in> set (map transect_id transects)
      then map (\<lambda>t. if transect_id t = key then t\<lparr>beach_slope := Some v\<rparr> else t) transects
      else transects @ [\<lparr>transect_id = key, site_id = None, beach_slope = Some v, cil = None, ciu = None\<rparr>])"

definition set_ci :: "transect list \<Rightarrow> string \<Rightarrow> real \<times> real \<Rightarrow> transect list" where
  "set_ci transects key v =
     (if key \<in> set (map transect_id transects)
      then map (\<lambda>t. if transect_id t = key then t\<lparr>cil := Some (fst v), ciu := Some (snd v)\<rparr> else t) transects
      else transects @ [\<lparr>transect_id = key, site_id = None, beach_slope = None,
                          cil = Some (fst v), ciu = Some (snd v)\<rparr>])"

text \<open>
  The chainage table of a site as the stage holds it: indexed by date, one column per
  transect. The tide table: the dates with the tide heights.
\<close>

type_synonym chainage_table = "(timestamp, real) frame"
type_synonym tide_table = "timestamp series"

subsection \<open>Date alignment\<close>

text \<open>\<open>t.loc[labels]\<close> on rows: for each label in turn, the rows that carry it.\<close>

definition loc_rows :: "('k \<times> 'r) list \<Rightarrow> 'k list \<Rightarrow> ('k \<times> 'r) list" where
  "loc_rows rs labels = concat (map (\<lambda>l. filter (\<lambda>r. fst r = l) rs) labels)"

text \<open>
  The alignment step. Comparing the rounded chainage index with the tide index raises
  ValueError when their lengths differ. When they agree position by position nothing is
  changed; otherwise both indexes are rounded and both tables are restricted to the common
  dates.
\<close>

definition align_dates ::
  "chainage_table \<Rightarrow> tide_table \<Rightarrow> error + chainage_table \<times> tide_table" where
  "align_dates df tides =
     (if length (rows df) \<noteq> length tides then Inl ValueError
      else if list_all2 (\<lambda>r t. round_10min (fst r) = fst t) (rows df) tides then Inr (df, tides)
      else (let df_rows = map (\<lambda>r. (round_10min (fst r), snd r)) (rows df);
                tides = map (\<lambda>t. (round_10min (fst t), snd t)) tides;
                common_dates = intersection (map fst df_rows) (map fst tides)
            in Inr (df\<lparr>rows := loc_rows df_rows common_dates\<rparr>, loc_rows tides common_dates)))"

subsection \<open>Per-transect inputs\<close>

text \<open>\<open>arr[mask]\<close> for a boolean mask: IndexError when the lengths differ.\<close>

definition mask_select :: "bool list \<Rightarrow> 'a list \<Rightarrow> error + 'a list" where
  "mask_select msk arr =
     (if length msk \<noteq> length arr then Inl IndexError
      else Inr (map snd (filter fst (zip msk arr))))"

text \<open>
  For one column: \<open>None\<close> when all values are null (the transect is skipped), else the dates,
  the chainages and the tides at the non-null positions of the column; the tide array is
  indexed by the column's mask.
\<close>

definition fit_inputs ::
  "chainage_table \<Rightarrow> tide_table \<Rightarrow> string \<Rightarrow>
     error + (timestamp list \<times> real list \<times> real option list) option" where
  "fit_inputs df tides key =
     (let idx_nan = map (\<lambda>r. snd r key = None) (rows df) in
      if list_all (\<lambda>b. b) idx_nan then Inr None
      else (let kept_dates = map snd (filter (\<lambda>p. \<not> fst p) (zip idx_nan (map fst (rows df)))) in
            case mask_select (map Not idx_nan) (map snd tides) of
              Inl e \<Rightarrow> Inl e
            | Inr tide \<Rightarrow>
                Inr (Some (kept_dates, map (\<lambda>r. the (snd r key)) (filter (\<lambda>r. snd r key \<noteq> None) (rows df)), tide))))"

subsection \<open>The estimation loop\<close>

text \<open>
  The spectral routines are those of the module \<open>SDS_slope\<close>, which is not among the
  sources, and are parameters: \<open>find_tide_peak\<close> gives the peak tidal frequency from the
  dates and the tides, \<open>tide_correct\<close> the composite series corrected for each trial slope,
  and \<open>integrate_power_spectrum\<close> the slope with its confidence interval. Each may raise.
\<close>

record ('p, 'c) slope_lib =
  find_tide_peak :: "timestamp list \<Rightarrow> real option list \<Rightarrow> error + 'p"
  tide_correct :: "real list \<Rightarrow> real option list \<Rightarrow> error + 'c"
  integrate_power_spectrum :: "timestamp list \<Rightarrow> 'c \<Rightarrow> 'p \<Rightarrow> error + real \<times> real \<times> real"

text \<open>\<open>d[key] = v\<close> on a dictionary kept as a list in insertion order.\<close>

definition dict_set :: "('a \<times> 'b) list \<Rightarrow> 'a \<Rightarrow> 'b \<Rightarrow> ('a \<times> 'b) list" where
  "dict_set d k v =
     (if k \<in> fst ` set d then map (\<lambda>p. if fst p = k then (k, v) else p) d else d @ [(k, v)])"

text \<open>
  The loop over the transect keys, filling \<open>slope_est\<close> (with \<open>cis\<close>, which gets the same
  keys): a column of nulls is skipped, a mask of the wrong length or a failing
  \<open>tide_correct\<close> ends the stage, and a failing \<open>integrate_power_spectrum\<close> is caught and the
  transect skipped.
\<close>

fun estimate_keys ::
  "('p, 'c) slope_lib \<Rightarrow> 'p \<Rightarrow> chainage_table \<Rightarrow> tide_table \<Rightarrow> string list \<Rightarrow>
     (string \<times> real \<times> real \<times> real) list \<Rightarrow> error + (string \<times> real \<times> real \<times> real) list" where
  "estimate_keys lib freqs_max df tides [] slope_est = Inr slope_est"
| "estimate_keys lib freqs_max df tides (key # keys) slope_est =
     (case fit_inputs df tides key of
        Inl e \<Rightarrow> Inl e
      | Inr None \<Rightarrow> estimate_keys lib freqs_max df tides keys slope_est
      | Inr (Some (kept_dates, composite, tide)) \<Rightarrow>
          (case tide_correct lib composite tide of
             Inl e \<Rightarrow> Inl e
           | Inr tsall \<Rightarrow>
               (case integrate_power_spectrum lib kept_dates tsall freqs_max of
                  Inl e \<Rightarrow> estimate_keys lib freqs_max df tides keys slope_est
                | Inr v \<Rightarrow> estimate_keys lib freqs_max df tides keys (dict_set slope_est key v))))"

subsection \<open>\<open>estimate_slopes\<close> of \<open>slope_estimation.py\<close>\<close>

text \<open>
  The two loops that write the results into \<open>transects\<close>: the slopes, then the intervals.
\<close>

definition update_slopes ::
  "transect list \<Rightarrow> (string \<times> real \<times> real \<times> real) list \<Rightarrow> transect list" where
  "update_slopes transects slope_est =
     fold (\<lambda>kv ts. set_ci ts (fst kv) (snd (snd kv))) slope_est
       (fold (\<lambda>kv ts. set_beach_slope ts (fst kv) (fst (snd kv))) slope_est transects)"

text \<open>
  The files of the sites: the chainage table (after the \<open>dates\<close> and \<open>satname\<close> columns are
  dropped) and the tide table of a site, \<open>None\<close> when the file does not exist.
\<close>

record site_files =
  time_series :: "string option \<Rightarrow> chainage_table option"
  tides_csv :: "string option \<Rightarrow> tide_table option"

text \<open>The body of the loop over the sites: every column of the site's table is estimated.\<close>

definition estimate_site ::
  "('p, 'c) slope_lib \<Rightarrow> site_files \<Rightarrow> string option \<Rightarrow> transect list \<Rightarrow> error + transect list" where
  "estimate_site lib files site transects =
     (case time_series files site of
        None \<Rightarrow> Inr transects
      | Some df \<Rightarrow>
          (case tides_csv files site of
             None \<Rightarrow> Inr transects
           | Some tides \<Rightarrow>
               (case align_dates df tides of
                  Inl e \<Rightarrow> Inl e
                | Inr (df, tides) \<Rightarrow>
                    (case find_tide_peak lib (index df) (map snd tides) of
                       Inl e \<Rightarrow> Inl e
                     | Inr freqs_max \<Rightarrow>
                         (case estimate_keys lib freqs_max df tides (columns df) [] of
                            Inl e \<Rightarrow> Inl e
                          | Inr slope_est \<Rightarrow>
                              Inr (if slope_est \<noteq> [] then update_slopes transects slope_est
                                   else transects))))))"

fun estimate_sites ::
  "('p, 'c) slope_lib \<Rightarrow> site_files \<Rightarrow> string option list \<Rightarrow> transect list \<Rightarrow> error + transect list" where
  "estimate_sites lib files [] transects = Inr transects"
| "estimate_sites lib files (site # sites) transects =
     (case estimate_site lib files site transects of
        Inl e \<Rightarrow> Inl e
      | Inr ts \<Rightarrow> estimate_sites lib files sites ts)"

text \<open>
  The filter for the transects that need a slope: a New Zealand id, one of the requested
  sites in the id when sites are given (the site ids are matched as plain text), and a null
  \<open>beach_slope\<close>.
\<close>

definition needs_slope :: "string list \<Rightarrow> transect \<Rightarrow> bool" where
  "needs_slope sites t \<longleftrightarrow>
     prefix ''nzd'' (transect_id t) \<and>
     (sites = [] \<or> (\<exists>s\<in>set sites. sublist s (transect_id t))) \<and>
     beach_slope t = None"

text \<open>
  The stage: \<open>None\<close> when no transect needs a slope (nothing is saved), else the table saved;
  an exception leaves the script without saving.
\<close>

definition estimate_slopes ::
  "('p, 'c) slope_lib \<Rightarrow> site_files \<Rightarrow> string list \<Rightarrow> transect list \<Rightarrow> error + transect list option" where
  "estimate_slopes lib files sites transects =
     (let new_transects = filter (needs_slope sites) transects in
      if length new_transects = 0 then Inr None
      else (case estimate_sites lib files (unique (map site_id new_transects)) transects of
              Inl e \<Rightarrow> Inl e
            | Inr ts \<Rightarrow> Inr (Some ts)))"

subsection \<open>\<open>estimate_slopes_for_site\<close> of the wrapper\<close>

text \<open>The update of the site's copy: only keys of its index are written.\<close>

definition update_site_slopes ::
  "transect list \<Rightarrow> (string \<times> real \<times> real \<times> real) list \<Rightarrow> transect list" where
  "update_site_slopes updated_transects slope_est =
     fold (\<lambda>kv ts. if fst kv \<in> set (map transect_id ts) then set_ci ts (fst kv) (snd (snd kv)) else ts)
       slope_est
       (fold (\<lambda>kv ts. if fst kv \<in> set (map transect_id ts)
                       then set_beach_slope ts (fst kv) (fst (snd kv)) else ts)
          slope_est updated_transects)"

text \<open>
  The wrapper for one site: the table written to the output file. Only the transects of the
  site with a null slope that have a column in the chainage table are estimated.
\<close>

definition estimate_slopes_for_site ::
  "('p, 'c) slope_lib \<Rightarrow> string \<Rightarrow> chainage_table \<Rightarrow> tide_table \<Rightarrow> transect list \<Rightarrow>
     error + transect list" where
  "estimate_slopes_for_site lib site df tides transects =
     (let transects_at_site = filter (\<lambda>t. site_id t = Some site \<and> beach_slope t = None) transects;
          at_site = filter (\<lambda>t. site_id t = Some site) transects
      in if length transects_at_site = 0 then Inr at_site
         else (case align_dates df tides of
                 Inl e \<Rightarrow> Inl e
               | Inr (df, tides) \<Rightarrow>
                   if length (rows df) = 0 then Inl SystemExit
                   else (case find_tide_peak lib (index df) (map snd tides) of
                           Inl e \<Rightarrow> Inl e
                         | Inr freqs_max \<Rightarrow>
                             (let transect_ids_to_process =
                                    filter (\<lambda>t. t \<in> set (columns df)) (map transect_id transects_at_site)
                              in case estimate_keys lib freqs_max df tides transect_ids_to_process [] of
                                   Inl e \<Rightarrow> Inl e
                                 | Inr slope_est \<Rightarrow>
                                     Inr (if slope_est \<noteq> [] then update_site_slopes at_site slope_est
                                          else at_site)))))"

subsection \<open>A site with one solved and one unsolved transect\<close>

definition transects_example :: "transect list" where
  "transects_example =
     [\<lparr>transect_id = ''nzd0001-01'', site_id = Some ''nzd0001'', beach_slope = Some 0.05,
       cil = Some 0.04, ciu = Some 0.06\<rparr>,
      \<lparr>transect_id = ''nzd0001-02'', site_id = Some ''nzd0001'', beach_slope = None,
       cil = None, ciu = None\<rparr>]"

definition series_example :: chainage_table where
  "series_example =
     \<lparr>columns = [''nzd0001-01'', ''nzd0001-02''],
      numeric = (\<lambda>c. True),
      rows = [(((2020, 1, 1), 79380000000000),
                 (\<lambda>c. None)(''nzd0001-01'' := Some 100, ''nzd0001-02'' := Some 200)),
              (((2020, 1, 17), 79440000000000),
                 (\<lambda>c. None)(''nzd0001-01'' := Some 102)),
              (((2020, 2, 2), 79320000000000),
                 (\<lambda>c. None)(''nzd0001-01'' := Some 101, ''nzd0001-02'' := Some 203))]\<rparr>"

definition tides_example :: tide_table where
  "tides_example =
     [(((2020, 1, 1), 79200000000000), Some 0.5),
      (((2020, 1, 17), 79200000000000), Some (- 0.2)),
      (((2020, 2, 2), 79200000000000), Some 0.3)]"

definition files_example :: site_files where
  "files_example =
     \<lparr>time_series = (\<lambda>s. if s = Some ''nzd0001'' then Some series_example else None),
      tides_csv = (\<lambda>s. if s = Some ''nzd0001'' then Some tides_example else None)\<rparr>"

text \<open>A library whose fit returns the slope 0.1 with the interval (0.08, 0.12).\<close>

definition lib_example :: "(unit, unit) slope_lib" where
  "lib_example =
     \<lparr>find_tide_peak = (\<lambda>index tides. Inr ()),
      tide_correct = (\<lambda>composite tide. Inr ()),
      integrate_power_spectrum = (\<lambda>kept_dates tsall freqs_max. Inr (0.1, 0.08, 0.12))\<rparr>"

text \<open>
  The rows of the chainage table paired with the tide rows at the same position, for the
  positions where the column is not null.
\<close>

definition paired_rows ::
  "chainage_table \<Rightarrow> tide_table \<Rightarrow> string \<Rightarrow>
     ((timestamp \<times> (string \<Rightarrow> real option)) \<times> (timestamp \<times> real option)) list" where
  "paired_rows df tides key = filter (\<lambda>p. snd (fst p) key \<noteq> None) (zip (rows df) tides)"

text \<open>A tide table one row shorter than the chainage table of the site.\<close>

definition short_tides_example :: tide_table where
  "short_tides_example =
     [(((2020, 1, 1), 79200000000000), Some 0.5),
      (((2020, 1, 17), 79200000000000), Some (- 0.2))]"

section \<open>Tide aligner and corrector\<close>

text \<open>
  The cells of the correction tables are floating-point results; they are kept as the
  operation with its operands, so nothing is assumed of the arithmetic. A cell of
  \<open>corrections\<close> is the fill value 0 or the quotient of a tide height by a beach slope; a
  cell of \<open>raw_intersects + corrections\<close>, in a column both tables have, is the sum of the
  raw chainage and the correction.
\<close>

datatype correction = Zero | Quotient "real option" "real option"

datatype corrected = Sum "real option" correction

text \<open>\<open>drop_duplicates(subset="id")\<close>: the first transect of each id.\<close>

definition drop_duplicates_id :: "transect list \<Rightarrow> transect list" where
  "drop_duplicates_id transects = keep_first transect_id [] transects"

text \<open>
  \<open>tides[tides.index.isin(sat_times)]\<close>, where \<open>sat_times\<close> are the observation dates rounded
  to ten minutes: the tide rows whose date, as stored, is one of them.
\<close>

definition sat_times :: "chainage_table \<Rightarrow> timestamp list" where
  "sat_times raw_intersects = map (\<lambda>r. round_10min (fst r)) (rows raw_intersects)"

definition select_tides :: "chainage_table \<Rightarrow> tide_table \<Rightarrow> tide_table" where
  "select_tides raw_intersects tides = filter (\<lambda>t. fst t \<in> set (sat_times raw_intersects)) tides"

text \<open>
  \<open>tides.tide.apply(lambda tide: tide / beach_slopes)\<close>: a row for each tide date, a column
  for each transect of the site.
\<close>

definition tide_corrections ::
  "(string \<times> real option) list \<Rightarrow> tide_table \<Rightarrow> (timestamp, correction) frame" where
  "tide_corrections beach_slopes tides =
     \<lparr>columns = map fst beach_slopes,
      numeric = (\<lambda>c. True),
      rows = map (\<lambda>t. (fst t, \<lambda>c. case map_of beach_slopes c of
                                     None \<Rightarrow> None
                                   | Some slope \<Rightarrow> Some (Quotient (snd t) slope))) tides\<rparr>"

text \<open>
  \<open>raw_intersects + corrections\<close> for two tables with the same index: row by row, the sum
  in the columns both have, null in the others.
\<close>

definition add_corrections ::
  "chainage_table \<Rightarrow> string list \<Rightarrow> (string \<Rightarrow> correction option) list \<Rightarrow>
     (timestamp, corrected) frame" where
  "add_corrections raw_intersects cols corrections =
     \<lparr>columns = columns raw_intersects @ filter (\<lambda>c. c \<notin> set (columns raw_intersects)) cols,
      numeric = (\<lambda>c. True),
      rows = map (\<lambda>(r, k). (fst r, \<lambda>c. if c \<in> set (columns raw_intersects) \<and> c \<in> set cols
                                        then map_option (Sum (snd r c)) (k c) else None))
                 (zip (rows raw_intersects) corrections)\<rparr>"

text \<open>
  The tables hold the transect columns; the text column \<open>satname\<close> of the raw table is not
  a column of \<open>corrections\<close>, is null in the sum and is dropped before the despiking.

  The correction itself, common to the wrapper and the script, from the selected tides on:
  the slopes of the site with their gaps filled (\<open>interpolate().bfill().ffill()\<close>, a pandas
  routine taken as a parameter that may raise), the corrections, their alignment on the
  index of the raw table with 0 where a date of the raw table is not a tide date, and the
  sum. The result is \<open>corrections\<close> after the alignment and \<open>tidally_corrected\<close> as it stands
  before \<open>despike\<close> is applied to its columns.
\<close>

definition correct_with ::
  "(real option list \<Rightarrow> error + real option list) \<Rightarrow> transect list \<Rightarrow> chainage_table \<Rightarrow>
     tide_table \<Rightarrow> error + (timestamp \<times> (string \<Rightarrow> correction option)) list \<times> (timestamp, corrected) frame" where
  "correct_with fill_gaps transects_at_site raw_intersects tides =
     (case fill_gaps (map beach_slope transects_at_site) of
        Inl e \<Rightarrow> Inl e
      | Inr slopes \<Rightarrow>
          (let beach_slopes = zip (map transect_id transects_at_site) slopes;
               corrections = tide_corrections beach_slopes tides
           in case reindex (Some Zero) corrections (index raw_intersects) of
                Inl e \<Rightarrow> Inl e
              | Inr aligned \<Rightarrow>
                  Inr (zip (index raw_intersects) aligned,
                       add_corrections raw_intersects (columns corrections) aligned)))"

subsection \<open>\<open>main\<close> of the tidal-correction wrapper\<close>

text \<open>
  The tool exits with status 1 when the site has no transect and when no tide row is
  selected; an exception raised on the way is caught and the tool exits with status 1 as
  well.
\<close>

definition apply_wrapper ::
  "(real option list \<Rightarrow> error + real option list) \<Rightarrow> string \<Rightarrow> transect list \<Rightarrow> chainage_table \<Rightarrow>
     tide_table \<Rightarrow> error + (timestamp \<times> (string \<Rightarrow> correction option)) list \<times> (timestamp, corrected) frame" where
  "apply_wrapper fill_gaps site transects raw_intersects tides =
     (let transects_at_site = filter (\<lambda>t. site_id t = Some site) (drop_duplicates_id transects) in
      if length transects_at_site = 0 then Inl SystemExit
      else (let tides = select_tides raw_intersects tides in
            if length tides = 0 then Inl SystemExit
            else (case correct_with fill_gaps transects_at_site raw_intersects tides of
                    Inl e \<Rightarrow> Inl SystemExit
                  | Inr r \<Rightarrow> Inr r)))"

subsection \<open>\<open>process_site\<close> and \<open>apply_correction\<close> of \<open>tidal_correction.py\<close>\<close>

text \<open>
  The script asks the tide provider for the rounded observation dates that have no selected
  tide row (\<open>get_tide_for_dt\<close>, \<open>None\<close> when the request fails), and adds what it receives
  to the tide table, sorted by date. The polygon of the site, whose centroid is sent with
  the request, is taken to be present. Rows of equal date, whose order the default sort of
  pandas does not fix, are kept in the order of the concatenation; the tables of the
  examples have distinct dates.
\<close>

definition fetch_missing :: "(timestamp \<Rightarrow> real option) \<Rightarrow> chainage_table \<Rightarrow> tide_table \<Rightarrow> tide_table" where
  "fetch_missing get_tide_for_dt raw_intersects tides =
     (if \<not> list_all (\<lambda>d. d \<in> set (map fst tides)) (sat_times raw_intersects) then
        (let missing = filter (\<lambda>d. d \<notin> set (map fst tides)) (sat_times raw_intersects);
             results = concat (map (\<lambda>d. case get_tide_for_dt d of
                                            None \<Rightarrow> []
                                          | Some tide \<Rightarrow> [(d, Some tide)]) missing)
         in if length results > 0 then sort_key fst (tides @ results) else tides)
      else tides)"

text \<open>
  \<open>process_site\<close>: \<open>None\<close> when the site has no transect (the function returns). There is no
  test for an empty tide table: on an empty column \<open>apply\<close> gives a Series, and reading its
  \<open>columns\<close> raises AttributeError.
\<close>

definition process_site ::
  "(real option list \<Rightarrow> error + real option list) \<Rightarrow> (timestamp \<Rightarrow> real option) \<Rightarrow> string \<Rightarrow>
     transect list \<Rightarrow> chainage_table \<Rightarrow> tide_table \<Rightarrow>
     error + ((timestamp \<times> (string \<Rightarrow> correction option)) list \<times> (timestamp, corrected) frame) option" where
  "process_site fill_gaps get_tide_for_dt sitename transects raw_intersects tides =
     (let transects_at_site = filter (\<lambda>t. site_id t = Some sitename) (drop_duplicates_id transects) in
      if length transects_at_site = 0 then Inr None
      else (let tides = fetch_missing get_tide_for_dt raw_intersects (select_tides raw_intersects tides) in
            if tides = [] then
              (case fill_gaps (map beach_slope transects_at_site) of
                 Inl e \<Rightarrow> Inl e
               | Inr slopes \<Rightarrow> Inl AttributeError)
            else (case correct_with fill_gaps transects_at_site raw_intersects tides of
                    Inl e \<Rightarrow> Inl e
                  | Inr r \<Rightarrow> Inr (Some r))))"


subsection \<open>Reading a result\<close>

text \<open>The cells of \<open>corrections\<close> and of \<open>tidally_corrected\<close> in the columns \<open>cols\<close>, row by row.\<close>

definition table_cells ::
  "string list \<Rightarrow> (timestamp \<times> (string \<Rightarrow> correction option)) list \<times> (timestamp, corrected) frame \<Rightarrow>
     (timestamp \<times> correction option list) list \<times> (timestamp \<times> corrected option list) list" where
  "table_cells cols r =
     (map (\<lambda>x. (fst x, map (snd x) cols)) (fst r),
      map (\<lambda>x. (fst x, map (snd x) cols)) (rows (snd r)))"

subsection \<open>A site with two transects of known slope\<close>

definition sloped_site_example :: "transect list" where
  "sloped_site_example =
     [\<lparr>transect_id = ''nzd0001-01'', site_id = Some ''nzd0001'', beach_slope = Some 0.05,
       cil = Some 0.04, ciu = Some 0.06\<rparr>,
      \<lparr>transect_id = ''nzd0001-02'', site_id = Some ''nzd0001'', beach_slope = Some 0.1,
       cil = Some 0.08, ciu = Some 0.12\<rparr>]"

definition sloped_example :: "transect list" where
  "sloped_example =
     sloped_site_example @
     [\<lparr>transect_id = ''nzd0002-01'', site_id = Some ''nzd0002'', beach_slope = Some 0.2,
       cil = None, ciu = None\<rparr>]"

text \<open>Slopes without a gap are left as they are by the filling.\<close>

definition no_gaps :: "real option list \<Rightarrow> error + real option list" where
  "no_gaps slopes = Inr slopes"

text \<open>
  Observations at 22:03:00, 22:04:00 and 22:02:00 with the tides stored at 22:00:00 of the
  same days, as the tide fetcher stores them.
\<close>

definition observed_example :: chainage_table where
  "observed_example =
     \<lparr>columns = [''nzd0001-01'', ''nzd0001-02''],
      numeric = (\<lambda>c. True),
      rows = [(((2020, 1, 1), 79380000000000),
                 (\<lambda>c. None)(''nzd0001-01'' := Some 100, ''nzd0001-02'' := Some 200)),
              (((2020, 1, 17), 79440000000000),
                 (\<lambda>c. None)(''nzd0001-01'' := Some 102)),
              (((2020, 2, 2), 79320000000000),
                 (\<lambda>c. None)(''nzd0001-01'' := Some 101, ''nzd0001-02'' := Some 203))]\<rparr>"

definition fetched_tides_example :: tide_table where
  "fetched_tides_example =
     [(((2020, 1, 1), 79200000000000), Some 0.5),
      (((2020, 1, 17), 79200000000000), Some (- 0.2)),
      (((2020, 2, 2), 79200000000000), Some 0.3)]"







section \<open>Properties of the merge\<close>

lemma index_loc_set: "index (loc_set f k c v) = index f"
  by (simp add: index_def loc_set_def comp_def cong: map_cong)

lemma map_fst_loc_set: "map fst (rows (loc_set f k c v)) = map fst (rows f)"
  by (induction "rows f") (auto simp: loc_set_def)

lemma columns_loc_set: "columns (loc_set f k c v) = columns f"
  by (simp add: loc_set_def)

lemma numeric_loc_set: "numeric (loc_set f k c v) = numeric f"
  by (simp add: loc_set_def)

lemma length_rows_loc_set: "length (rows (loc_set f k c v)) = length (rows f)"
  by (simp add: loc_set_def)

lemma cell_loc_set:
  "i < length (rows f) \<Longrightarrow>
   snd (rows (loc_set f k c v) ! i) col =
     (if fst (rows f ! i) = k \<and> col = c then v else snd (rows f ! i) col)"
  by (simp add: loc_set_def)

lemma key_loc_set:
  "i < length (rows f) \<Longrightarrow> fst (rows (loc_set f k c v) ! i) = fst (rows f ! i)"
  by (simp add: loc_set_def)

lemma update_cols_char:
  "update_cols S k cols B = Inr B' \<Longrightarrow>
     columns B' = columns B \<and> numeric B' = numeric B \<and>
     length (rows B') = length (rows B) \<and>
     (\<forall>i<length (rows B). fst (rows B' ! i) = fst (rows B ! i) \<and>
        (\<forall>col. snd (rows B' ! i) col =
           (if fst (rows B ! i) = k \<and> col \<in> set cols
            then site_value S k col (snd (rows B ! i) col)
            else snd (rows B ! i) col)))"
proof (induction cols arbitrary: B)
  case Nil
  then show ?case by simp
next
  case (Cons c cs)
  show ?case
  proof (cases "loc_get S k c")
    case (Inl e)
    with Cons.prems show ?thesis by simp
  next
    case (Inr cell)
    show ?thesis
    proof (cases cell)
      case None
      with Inr Cons.prems have "update_cols S k cs B = Inr B'" by simp
      from Cons.IH[OF this] Inr None show ?thesis
        by (auto simp: site_value_def)
    next
      case (Some v)
      with Inr Cons.prems have "update_cols S k cs (loc_set B k c (Some v)) = Inr B'" by simp
      from Cons.IH[OF this] Inr Some show ?thesis
        by (auto simp: site_value_def columns_loc_set numeric_loc_set length_rows_loc_set
              cell_loc_set key_loc_set)
    qed
  qed
qed

lemma update_ids_char:
  "update_ids S cols ids B = Inr B' \<Longrightarrow>
     columns B' = columns B \<and> numeric B' = numeric B \<and>
     length (rows B') = length (rows B) \<and>
     (\<forall>i<length (rows B). fst (rows B' ! i) = fst (rows B ! i) \<and>
        (\<forall>col. snd (rows B' ! i) col =
           (if fst (rows B ! i) \<in> set ids \<and> col \<in> set cols
            then site_value S (fst (rows B ! i)) col (snd (rows B ! i) col)
            else snd (rows B ! i) col)))"
proof (induction ids arbitrary: B)
  case Nil
  then show ?case by simp
next
  case (Cons k ks)
  from Cons.prems obtain B1 where 1: "update_cols S k cols B = Inr B1"
    and 2: "update_ids S cols ks B1 = Inr B'"
    by (auto split: sum.splits)
  note c1 = update_cols_char[OF 1] and c2 = Cons.IH[OF 2]
  show ?case
  proof (intro conjI allI impI)
    show "columns B' = columns B" using c1 c2 by simp
    show "numeric B' = numeric B" using c1 c2 by simp
    show "length (rows B') = length (rows B)" using c1 c2 by simp
  next
    fix i assume i: "i < length (rows B)"
    then show "fst (rows B' ! i) = fst (rows B ! i)" using c1 c2 by simp
  next
    fix i col assume i: "i < length (rows B)"
    then have i1: "i < length (rows B1)" using c1 by simp
    have k1: "fst (rows B1 ! i) = fst (rows B ! i)" using c1 i by simp
    have v1: "snd (rows B1 ! i) col =
           (if fst (rows B ! i) = k \<and> col \<in> set cols
            then site_value S k col (snd (rows B ! i) col)
            else snd (rows B ! i) col)" using c1 i by blast
    have v2: "snd (rows B' ! i) col =
           (if fst (rows B1 ! i) \<in> set ks \<and> col \<in> set cols
            then site_value S (fst (rows B1 ! i)) col (snd (rows B1 ! i) col)
            else snd (rows B1 ! i) col)" using c2 i1 by blast
    show "snd (rows B' ! i) col =
           (if fst (rows B ! i) \<in> set (k # ks) \<and> col \<in> set cols
            then site_value S (fst (rows B ! i)) col (snd (rows B ! i) col)
            else snd (rows B ! i) col)"
      unfolding v2 k1 v1 by (auto simp: site_value_def split: sum.splits option.splits)
  qed
qed

lemma set_unique: "set (unique xs) = set xs"
  by (simp add: unique_def)

lemma set_intersection: "set (intersection xs ys) = set xs \<inter> set ys"
  by (auto simp: intersection_def set_unique)

lemma merge_site_char:
  assumes "merge_site uc B S = Inr B'"
  shows "columns B' = columns B \<and> numeric B' = numeric B \<and>
     length (rows B') = length (rows B) \<and>
     (\<forall>i<length (rows B). fst (rows B' ! i) = fst (rows B ! i) \<and>
        (\<forall>col. snd (rows B' ! i) col =
           (if fst (rows B ! i) \<in> set (index S) \<and> col \<in> set (cols_to_update uc B S)
            then site_value S (fst (rows B ! i)) col (snd (rows B ! i) col)
            else snd (rows B ! i) col)))"
proof (cases "cols_to_update uc B S = []")
  case True
  with assms have "B' = B" by (simp add: merge_site_def)
  with True show ?thesis by simp
next
  case cols: False
  show ?thesis
  proof (cases "intersection (index B) (index S) = []")
    case True
    with assms cols have eq: "B' = B" by (simp add: merge_site_def Let_def)
    from True have "set (index B) \<inter> set (index S) = {}"
      using set_intersection[of "index B" "index S"] by simp
    moreover have "\<forall>i<length (rows B). fst (rows B ! i) \<in> set (index B)"
      by (simp add: index_def)
    ultimately have "\<forall>i<length (rows B). fst (rows B ! i) \<notin> set (index S)"
      by blast
    with eq show ?thesis by simp
  next
    case False
    with assms cols
    have "update_ids S (cols_to_update uc B S) (intersection (index B) (index S)) B = Inr B'"
      by (simp add: merge_site_def Let_def)
    from update_ids_char[OF this] show ?thesis
      by (simp add: set_intersection index_def)
  qed
qed

lemma aggregate_single:
  "aggregate_transects B [Some F] uc = Inr B' \<Longrightarrow> merge_site uc B F = Inr B'"
  by (auto simp: aggregate_transects_def split: sum.splits)

lemma index_nth_eq:
  assumes "length (rows B') = length (rows B)"
    and "\<forall>i<length (rows B). fst (rows B' ! i) = fst (rows B ! i)"
  shows "index B' = index B"
  unfolding index_def using assms by (intro nth_equalityI) auto

lemma reindex_length: "reindex fill G target = Inr al \<Longrightarrow> length al = length target"
  by (auto simp: reindex_def index_def split: if_splits)

lemma reindex_nth:
  assumes "reindex fill G target = Inr al" and "i < length target"
  shows "(target ! i \<notin> set (index G) \<and> al ! i = (\<lambda>c. fill)) \<or>
         (\<exists>m\<in>set (rows G). fst m = target ! i \<and> al ! i = snd m)"
proof (cases "index G = target")
  case True
  with assms have al: "al = map snd (rows G)" by (simp add: reindex_def)
  from True assms(2) have i: "i < length (rows G)" by (auto simp: index_def)
  with True have "fst (rows G ! i) = target ! i" by (auto simp: index_def)
  with al i show ?thesis by auto
next
  case False
  with assms have al: "al = map (\<lambda>k. case map_of (rows G) k of None \<Rightarrow> (\<lambda>c. fill) | Some r \<Rightarrow> r) target"
    by (auto simp: reindex_def split: if_splits)
  show ?thesis
  proof (cases "map_of (rows G) (target ! i)")
    case None
    then have "target ! i \<notin> set (index G)" by (simp add: map_of_eq_None_iff index_def)
    with al None assms(2) show ?thesis by simp
  next
    case (Some r)
    then have "(target ! i, r) \<in> set (rows G)" by (rule map_of_SomeD)
    with al Some assms(2) show ?thesis by force
  qed
qed

lemma df_update_char:
  assumes "df_update B G = Inr B1"
  shows "columns B1 = columns B \<and> numeric B1 = numeric B \<and>
     length (rows B1) = length (rows B) \<and>
     (\<forall>i<length (rows B). fst (rows B1 ! i) = fst (rows B ! i) \<and>
        ((fst (rows B ! i) \<notin> set (index G) \<and> rows B1 ! i = rows B ! i) \<or>
         (\<exists>m\<in>set (rows G). fst m = fst (rows B ! i) \<and>
            snd (rows B1 ! i) = update_row (columns B) (columns G) (snd (rows B ! i)) (snd m))))"
proof -
  from assms obtain al where al: "reindex None G (index B) = Inr al"
    and B1: "B1 = B\<lparr>rows := map (\<lambda>(r, that). (fst r, update_row (columns B) (columns G) (snd r) that))
                                (zip (rows B) al)\<rparr>"
    by (auto simp: df_update_def split: sum.splits)
  have len: "length al = length (rows B)"
    using reindex_length[OF al] by (simp add: index_def)
  have nth: "rows B1 ! i = (fst (rows B ! i), update_row (columns B) (columns G) (snd (rows B ! i)) (al ! i))"
    if "i < length (rows B)" for i
    using that len by (simp add: B1)
  have none: "update_row (columns B) (columns G) this (\<lambda>c. None) = this" for this :: "string \<Rightarrow> 'b option"
    by (auto simp: update_row_def)
  show ?thesis
  proof (intro conjI allI impI)
    show "columns B1 = columns B" by (simp add: B1)
    show "numeric B1 = numeric B" by (simp add: B1)
    show "length (rows B1) = length (rows B)" by (simp add: B1 len)
  next
    fix i assume i: "i < length (rows B)"
    then show "fst (rows B1 ! i) = fst (rows B ! i)" by (simp add: nth)
  next
    fix i assume i: "i < length (rows B)"
    then have "i < length (index B)" and t: "index B ! i = fst (rows B ! i)" by (simp_all add: index_def)
    from reindex_nth[OF al this(1)]
    show "(fst (rows B ! i) \<notin> set (index G) \<and> rows B1 ! i = rows B ! i) \<or>
         (\<exists>m\<in>set (rows G). fst m = fst (rows B ! i) \<and>
            snd (rows B1 ! i) = update_row (columns B) (columns G) (snd (rows B ! i)) (snd m))"
      unfolding t using nth[OF i] by (auto simp: none)
  qed
qed

lemma set_keep_first: "set (keep_first key seen xs) \<subseteq> set xs"
  by (induction xs arbitrary: seen) auto

lemma rows_drop_duplicates: "set (rows (drop_duplicates F)) \<subseteq> set (rows F)"
  by (simp add: drop_duplicates_def set_keep_first)

lemma columns_drop_duplicates: "columns (drop_duplicates F) = columns F"
  by (simp add: drop_duplicates_def)

lemma index_drop_duplicates: "set (index (drop_duplicates F)) \<subseteq> set (index F)"
  using rows_drop_duplicates[of F] by (auto simp: index_def)

text \<open>the update step, against the fragment itself\<close>
lemma df_update_dd_char:
  assumes "df_update B (drop_duplicates F) = Inr B1"
  shows "columns B1 = columns B \<and> numeric B1 = numeric B \<and>
     length (rows B1) = length (rows B) \<and>
     (\<forall>i<length (rows B). fst (rows B1 ! i) = fst (rows B ! i) \<and>
        (rows B1 ! i = rows B ! i \<or>
         (\<exists>m\<in>set (rows F). fst m = fst (rows B ! i) \<and>
            snd (rows B1 ! i) = update_row (columns B) (columns F) (snd (rows B ! i)) (snd m))))"
  using df_update_char[OF assms] rows_drop_duplicates[of F]
  by (simp add: columns_drop_duplicates) blast

lemma filter_keys_cong:
  assumes "length ys = length xs"
    and "\<forall>i<length xs. fst (ys ! i) = fst (xs ! i) \<and> (P (fst (xs ! i)) \<longrightarrow> ys ! i = xs ! i)"
  shows "filter (\<lambda>r. P (fst r)) ys = filter (\<lambda>r. P (fst r)) xs"
proof -
  from assms have "list_all2 (\<lambda>x y. fst y = fst x \<and> (P (fst x) \<longrightarrow> y = x)) xs ys"
    by (simp add: list_all2_conv_all_nth)
  then show ?thesis
    by (induction rule: list_all2_induct) auto
qed

lemma join_rows_keys: "r \<in> set (join_rows R l) \<Longrightarrow> fst r = fst l"
  by (auto simp: join_rows_def split: list.splits)

lemma join_rows_nonempty: "join_rows R l \<noteq> []"
  by (auto simp: join_rows_def split: list.splits)

lemma join_rows_absent:
  "fst l \<notin> set (index R) \<Longrightarrow> join_rows R l = [(fst l, join_row (columns R) (snd l) (\<lambda>c. None))]"
proof -
  assume "fst l \<notin> set (index R)"
  then have "\<forall>m\<in>set (rows R). fst m \<noteq> fst l"
    unfolding index_def by (metis image_eqI set_map)
  then have "filter (\<lambda>m. fst m = fst l) (rows R) = []"
    by (simp add: filter_empty_conv)
  then show ?thesis by (simp add: join_rows_def)
qed

lemma join_rows_present:
  assumes "fst l \<in> set (index R)"
  shows "join_rows R l = map (\<lambda>m. (fst l, join_row (columns R) (snd l) (snd m)))
                            (filter (\<lambda>m. fst m = fst l) (rows R))"
proof -
  from assms have "filter (\<lambda>m. fst m = fst l) (rows R) \<noteq> []"
    by (force simp: index_def filter_empty_conv)
  then show ?thesis by (auto simp: join_rows_def split: list.splits)
qed

lemma join_rows_old_cell:
  "r \<in> set (join_rows R l) \<Longrightarrow> c \<notin> set (columns R) \<Longrightarrow> snd r c = snd l c"
  by (auto simp: join_rows_def join_row_def split: list.splits)

lemma set_index_join_rows: "fst ` set (concat (map (join_rows R) ls)) = fst ` set ls"
proof -
  have "fst ` set (join_rows R l) = {fst l}" for l
    using join_rows_keys[of _ R l] join_rows_nonempty[of R l]
    by (cases "join_rows R l") auto
  then show ?thesis by (induction ls) (auto simp: image_Un)
qed

lemma filter_join_rows:
  assumes "set cols \<inter> set (columns R) = {}"
  shows "map (\<lambda>r. (fst r, map (snd r) cols))
           (filter (\<lambda>r. fst r \<notin> set (index R)) (concat (map (join_rows R) ls))) =
         map (\<lambda>r. (fst r, map (snd r) cols)) (filter (\<lambda>r. fst r \<notin> set (index R)) ls)"
proof (induction ls)
  case Nil
  then show ?case by simp
next
  case (Cons l ls)
  show ?case
  proof (cases "fst l \<in> set (index R)")
    case True
    then have "filter (\<lambda>r. fst r \<notin> set (index R)) (join_rows R l) = []"
      using join_rows_keys[of _ R l] by (auto simp: filter_empty_conv)
    with True Cons.IH show ?thesis by simp
  next
    case False
    have "map (join_row (columns R) (snd l) (\<lambda>c. None)) cols = map (snd l) cols"
      using assms by (intro map_cong) (auto simp: join_row_def)
    with False Cons.IH show ?thesis by (simp add: join_rows_absent)
  qed
qed

lemma update_transects_cases:
  assumes "update_transects B F = Inr B'"
  obtains B1 where "df_update B (drop_duplicates F) = Inr B1"
    and "filter (\<lambda>c. c \<notin> set (columns B)) (columns F) = [] \<and> B' = B1 \<or>
         filter (\<lambda>c. c \<notin> set (columns B)) (columns F) \<noteq> [] \<and>
         columns B' = columns B @ filter (\<lambda>c. c \<notin> set (columns B)) (columns F) \<and>
         rows B' = concat (map (join_rows (select F (filter (\<lambda>c. c \<notin> set (columns B)) (columns F)))) (rows B1))"
proof -
  from assms obtain B1 where 1: "df_update B (drop_duplicates F) = Inr B1"
    and 2: "(let new_columns = filter (\<lambda>c. c \<notin> set (columns B1)) (columns F) in
          if new_columns \<noteq> [] then join B1 (select F new_columns) else Inr B1) = Inr B'"
    by (auto simp: update_transects_def split: sum.splits)
  have cols: "columns B1 = columns B" using df_update_dd_char[OF 1] by simp
  from 2 have "filter (\<lambda>c. c \<notin> set (columns B)) (columns F) = [] \<and> B' = B1 \<or>
         filter (\<lambda>c. c \<notin> set (columns B)) (columns F) \<noteq> [] \<and>
         columns B' = columns B @ filter (\<lambda>c. c \<notin> set (columns B)) (columns F) \<and>
         rows B' = concat (map (join_rows (select F (filter (\<lambda>c. c \<notin> set (columns B)) (columns F)))) (rows B1))"
    by (auto simp: cols Let_def join_def select_def split: if_splits)
  with 1 show ?thesis using that by blast
qed

lemma index_select: "index (select F cs) = index F"
  by (simp add: index_def select_def)

lemma rows_select: "rows (select F cs) = rows F"
  by (simp add: select_def)

lemma columns_select: "columns (select F cs) = cs"
  by (simp add: select_def)

lemma filter_key_distinct:
  "distinct (map f xs) \<Longrightarrow> k \<in> f ` set xs \<Longrightarrow> \<exists>x. filter (\<lambda>x. f x = k) xs = [x]"
proof (induction xs)
  case Nil
  then show ?case by simp
next
  case (Cons a xs)
  show ?case
  proof (cases "f a = k")
    case True
    with Cons.prems have "k \<notin> f ` set xs" by simp
    then have "\<forall>x\<in>set xs. f x \<noteq> k" by blast
    then have "filter (\<lambda>x. f x = k) xs = []" by (simp add: filter_empty_conv)
    with True show ?thesis by simp
  next
    case False
    with Cons show ?thesis by auto
  qed
qed

lemma loc_get_distinct:
  assumes "distinct (index S)" and "k \<in> set (index S)"
  shows "\<exists>cell. loc_get S k c = Inr cell"
proof -
  from assms obtain r where "filter (\<lambda>r. fst r = k) (rows S) = [r]"
    using filter_key_distinct[of fst "rows S" k] by (auto simp: index_def)
  then show ?thesis by (simp add: loc_get_def)
qed

lemma update_cols_returns:
  assumes "distinct (index S)" and "k \<in> set (index S)"
  shows "\<exists>B'. update_cols S k cols B = Inr B'"
proof (induction cols arbitrary: B)
  case Nil
  then show ?case by simp
next
  case (Cons c cs)
  from loc_get_distinct[OF assms] obtain cell where "loc_get S k c = Inr cell" by blast
  with Cons.IH show ?case by (cases cell) auto
qed

lemma update_ids_returns:
  assumes "distinct (index S)" and "set ids \<subseteq> set (index S)"
  shows "\<exists>B'. update_ids S cols ids B = Inr B'"
  using assms(2)
proof (induction ids arbitrary: B)
  case Nil
  then show ?case by simp
next
  case (Cons k ks)
  then have "k \<in> set (index S)" by simp
  from update_cols_returns[OF assms(1) this] obtain B1 where "update_cols S k cols B = Inr B1"
    by blast
  moreover from Cons have "\<exists>B'. update_ids S cols ks B1 = Inr B'" by simp
  ultimately show ?case by auto
qed

lemma aggregate_transects_returns:
  assumes "distinct (index F)"
  shows "\<exists>B'. aggregate_transects B [Some F] uc = Inr B'"
proof -
  have "set (intersection (index B) (index F)) \<subseteq> set (index F)"
    by (simp add: set_intersection)
  from update_ids_returns[OF assms this]
  have "\<exists>B'. merge_site uc B F = Inr B'"
    by (auto simp: merge_site_def Let_def)
  then show ?thesis by (auto simp: aggregate_transects_def)
qed

lemma aggregate_frame:
  assumes "aggregate_transects B [Some F] uc = Inr B'"
  shows "index B' = index B" and "columns B' = columns B"
    and "\<forall>i<length (rows B). fst (rows B ! i) \<notin> set (index F) \<longrightarrow> rows B' ! i = rows B ! i"
proof -
  note ch = merge_site_char[OF aggregate_single[OF assms]]
  from ch show "index B' = index B" by (intro index_nth_eq) auto
  from ch show "columns B' = columns B" by simp
  show "\<forall>i<length (rows B). fst (rows B ! i) \<notin> set (index F) \<longrightarrow> rows B' ! i = rows B ! i"
  proof (intro allI impI)
    fix i assume i: "i < length (rows B)" and k: "fst (rows B ! i) \<notin> set (index F)"
    from ch i k have "fst (rows B' ! i) = fst (rows B ! i)"
      and "\<forall>col. snd (rows B' ! i) col = snd (rows B ! i) col" by auto
    then show "rows B' ! i = rows B ! i"
      by (intro prod_eqI ext) auto
  qed
qed

lemma update_untouched:
  assumes "df_update B (drop_duplicates F) = Inr B1"
  shows "filter (\<lambda>r. fst r \<notin> set (index F)) (rows B1) = filter (\<lambda>r. fst r \<notin> set (index F)) (rows B)"
proof (rule filter_keys_cong)
  note ch = df_update_dd_char[OF assms]
  from ch show "length (rows B1) = length (rows B)" by simp
  show "\<forall>i<length (rows B). fst (rows B1 ! i) = fst (rows B ! i) \<and>
          (fst (rows B ! i) \<notin> set (index F) \<longrightarrow> rows B1 ! i = rows B ! i)"
  proof (intro allI impI conjI)
    fix i assume i: "i < length (rows B)"
    with ch show "fst (rows B1 ! i) = fst (rows B ! i)" by simp
    assume k: "fst (rows B ! i) \<notin> set (index F)"
    then have "\<not> (\<exists>m\<in>set (rows F). fst m = fst (rows B ! i))"
      unfolding index_def by (metis image_eqI set_map)
    with ch i show "rows B1 ! i = rows B ! i" by blast
  qed
qed

lemma update_transects_frame:
  assumes "update_transects B F = Inr B'"
  shows "set (index B') = set (index B)"
    and "rows_outside F (columns B) B' = rows_outside F (columns B) B"
proof -
  let ?new = "filter (\<lambda>c. c \<notin> set (columns B)) (columns F)"
  from assms obtain B1 where 1: "df_update B (drop_duplicates F) = Inr B1"
    and 2: "?new = [] \<and> B' = B1 \<or>
         ?new \<noteq> [] \<and> columns B' = columns B @ ?new \<and>
         rows B' = concat (map (join_rows (select F ?new)) (rows B1))"
    by (rule update_transects_cases)
  note ch = df_update_dd_char[OF 1]
  from ch have idx: "index B1 = index B" by (intro index_nth_eq) auto
  have disj: "set (columns B) \<inter> set (columns (select F ?new)) = {}"
    by (auto simp: columns_select)
  from 2 show "set (index B') = set (index B)"
  proof
    assume "?new = [] \<and> B' = B1" with idx show ?thesis by simp
  next
    assume "?new \<noteq> [] \<and> columns B' = columns B @ ?new \<and>
         rows B' = concat (map (join_rows (select F ?new)) (rows B1))"
    then have "rows B' = concat (map (join_rows (select F ?new)) (rows B1))" by simp
    then have "set (index B') = fst ` set (rows B1)"
      using set_index_join_rows[of "select F ?new" "rows B1"] by (simp add: index_def)
    also have "\<dots> = set (index B1)" by (simp add: index_def)
    finally show ?thesis using idx by simp
  qed
  from 2 show "rows_outside F (columns B) B' = rows_outside F (columns B) B"
  proof
    assume "?new = [] \<and> B' = B1"
    with update_untouched[OF 1] show ?thesis by (simp add: rows_outside_def)
  next
    assume "?new \<noteq> [] \<and> columns B' = columns B @ ?new \<and>
         rows B' = concat (map (join_rows (select F ?new)) (rows B1))"
    then have r: "rows B' = concat (map (join_rows (select F ?new)) (rows B1))" by simp
    show ?thesis
      unfolding rows_outside_def r
      using filter_join_rows[OF disj, of "rows B1"] update_untouched[OF 1]
      by (simp add: index_select)
  qed
qed

lemma loc_get_Inr:
  "loc_get F k c = Inr cell \<Longrightarrow> \<exists>m\<in>set (rows F). fst m = k \<and> snd m c = cell"
proof -
  assume a: "loc_get F k c = Inr cell"
  then obtain m where m: "filter (\<lambda>r. fst r = k) (rows F) = [m]" and "snd m c = cell"
    by (auto simp: loc_get_def split: list.splits)
  from m have "m \<in> set (filter (\<lambda>r. fst r = k) (rows F))" by simp
  with \<open>snd m c = cell\<close> show ?thesis by auto
qed

lemma site_value_null:
  assumes "\<forall>m\<in>set (rows F). fst m = r \<longrightarrow> snd m c = None"
  shows "site_value F r c old = old"
proof (cases "loc_get F r c")
  case (Inl e)
  then show ?thesis by (simp add: site_value_def)
next
  case (Inr cell)
  from loc_get_Inr[OF this] assms have "cell = None" by auto
  with Inr show ?thesis by (simp add: site_value_def)
qed

lemma aggregate_null_safe:
  assumes "aggregate_transects B [Some F] uc = Inr B'"
    and "\<forall>m\<in>set (rows F). fst m = r \<longrightarrow> snd m c = None"
  shows "\<forall>i<length (rows B). fst (rows B ! i) = r \<longrightarrow> snd (rows B' ! i) c = snd (rows B ! i) c"
  using merge_site_char[OF aggregate_single[OF assms(1)]] site_value_null[OF assms(2)]
  by auto

lemma cells_at_nth_cong:
  assumes "length ys = length xs"
    and "\<forall>i<length xs. fst (ys ! i) = fst (xs ! i) \<and> (fst (xs ! i) = r \<longrightarrow> snd (ys ! i) c = snd (xs ! i) c)"
  shows "(\<lambda>r. snd r c) ` {x \<in> set ys. fst x = r} = (\<lambda>r. snd r c) ` {x \<in> set xs. fst x = r}"
proof -
  from assms have "list_all2 (\<lambda>x y. fst y = fst x \<and> (fst x = r \<longrightarrow> snd y c = snd x c)) xs ys"
    by (simp add: list_all2_conv_all_nth)
  then show ?thesis
  proof (induction rule: list_all2_induct)
    case Nil
    then show ?case by simp
  next
    case (Cons x xs y ys)
    have "{z \<in> set (y # ys). fst z = r} = (if fst y = r then {y} else {}) \<union> {z \<in> set ys. fst z = r}"
      by auto
    moreover have "{z \<in> set (x # xs). fst z = r} = (if fst x = r then {x} else {}) \<union> {z \<in> set xs. fst z = r}"
      by auto
    ultimately show ?case using Cons by (simp add: image_Un)
  qed
qed

lemma cells_at_join_rows:
  assumes "c \<notin> set (columns R)"
  shows "(\<lambda>r. snd r c) ` {x \<in> set (concat (map (join_rows R) ls)). fst x = r} =
         (\<lambda>r. snd r c) ` {x \<in> set ls. fst x = r}"
proof -
  have one: "(\<lambda>r. snd r c) ` {x \<in> set (join_rows R l). fst x = r} = (if fst l = r then {snd l c} else {})" for l
  proof (cases "fst l = r")
    case True
    obtain x where x: "x \<in> set (join_rows R l)"
      using join_rows_nonempty[of R l] by (cases "join_rows R l") auto
    have "{x \<in> set (join_rows R l). fst x = r} = set (join_rows R l)"
      using True join_rows_keys[of _ R l] by auto
    moreover have "(\<lambda>r. snd r c) ` set (join_rows R l) = {snd l c}"
      using x join_rows_old_cell[OF _ assms, of _ l] by auto
    ultimately show ?thesis using True by simp
  next
    case False
    then have "{x \<in> set (join_rows R l). fst x = r} = {}"
      using join_rows_keys[of _ R l] by auto
    with False show ?thesis by simp
  qed
  show ?thesis
  proof (induction ls)
    case Nil
    then show ?case by simp
  next
    case (Cons l ls)
    have "{x \<in> set (concat (map (join_rows R) (l # ls))). fst x = r} =
          {x \<in> set (join_rows R l). fst x = r} \<union> {x \<in> set (concat (map (join_rows R) ls)). fst x = r}"
      by auto
    moreover have "{x \<in> set (l # ls). fst x = r} = (if fst l = r then {l} else {}) \<union> {x \<in> set ls. fst x = r}"
      by auto
    ultimately show ?case using Cons one[of l] by (simp add: image_Un)
  qed
qed

lemma update_null_safe:
  assumes "update_transects B F = Inr B'" and "c \<in> set (columns B)"
    and "\<forall>m\<in>set (rows F). fst m = r \<longrightarrow> snd m c = None"
  shows "cells_at B' r c = cells_at B r c"
proof -
  let ?new = "filter (\<lambda>c. c \<notin> set (columns B)) (columns F)"
  from assms(1) obtain B1 where 1: "df_update B (drop_duplicates F) = Inr B1"
    and 2: "?new = [] \<and> B' = B1 \<or>
         ?new \<noteq> [] \<and> columns B' = columns B @ ?new \<and>
         rows B' = concat (map (join_rows (select F ?new)) (rows B1))"
    by (rule update_transects_cases)
  note ch = df_update_dd_char[OF 1]
  have "cells_at B1 r c = cells_at B r c"
    unfolding cells_at_def
  proof (rule cells_at_nth_cong)
    from ch show "length (rows B1) = length (rows B)" by simp
    show "\<forall>i<length (rows B). fst (rows B1 ! i) = fst (rows B ! i) \<and>
            (fst (rows B ! i) = r \<longrightarrow> snd (rows B1 ! i) c = snd (rows B ! i) c)"
    proof (intro allI impI conjI)
      fix i assume i: "i < length (rows B)"
      with ch show "fst (rows B1 ! i) = fst (rows B ! i)" by simp
      assume r: "fst (rows B ! i) = r"
      from ch i have "rows B1 ! i = rows B ! i \<or>
         (\<exists>m\<in>set (rows F). fst m = fst (rows B ! i) \<and>
            snd (rows B1 ! i) = update_row (columns B) (columns F) (snd (rows B ! i)) (snd m))"
        by simp
      then show "snd (rows B1 ! i) c = snd (rows B ! i) c"
        using assms(3) r by (auto simp: update_row_def)
    qed
  qed
  moreover from 2 have "cells_at B' r c = cells_at B1 r c"
  proof
    assume "?new = [] \<and> B' = B1" then show ?thesis by simp
  next
    assume "?new \<noteq> [] \<and> columns B' = columns B @ ?new \<and>
         rows B' = concat (map (join_rows (select F ?new)) (rows B1))"
    then have r: "rows B' = concat (map (join_rows (select F ?new)) (rows B1))" by simp
    have "c \<notin> set (columns (select F ?new))" using assms(2) by (simp add: columns_select)
    from cells_at_join_rows[OF this] show ?thesis by (simp add: cells_at_def r)
  qed
  ultimately show ?thesis by simp
qed

lemma df_update_dd_key:
  assumes "df_update B (drop_duplicates F) = Inr B1" and "i < length (rows B)"
  shows "i < length (rows B1)" and "fst (rows B1 ! i) = fst (rows B ! i)"
proof -
  from df_update_dd_char[OF assms(1)] have "length (rows B1) = length (rows B)"
    and a: "\<forall>i<length (rows B). fst (rows B1 ! i) = fst (rows B ! i) \<and>
        (rows B1 ! i = rows B ! i \<or>
         (\<exists>m\<in>set (rows F). fst m = fst (rows B ! i) \<and>
            snd (rows B1 ! i) = update_row (columns B) (columns F) (snd (rows B ! i)) (snd m)))"
    by blast+
  with assms(2) show "i < length (rows B1)" by simp
  from a assms(2) show "fst (rows B1 ! i) = fst (rows B ! i)" by blast
qed

lemma update_new_column:
  assumes "update_transects B F = Inr B'" and "c \<in> set (columns F)" and "c \<notin> set (columns B)"
  shows "c \<in> set (columns B')"
    and "\<forall>row\<in>set (rows B'). if fst row \<in> set (index F)
            then (\<exists>m\<in>set (rows F). fst m = fst row \<and> snd row c = snd m c)
            else snd row c = None"
    and "\<forall>l\<in>set (rows B). \<forall>m\<in>set (rows F). fst m = fst l \<longrightarrow>
            (\<exists>row\<in>set (rows B'). fst row = fst l \<and> snd row c = snd m c)"
proof -
  let ?new = "filter (\<lambda>c. c \<notin> set (columns B)) (columns F)"
  let ?R = "select F ?new"
  from assms(1) obtain B1 where 1: "df_update B (drop_duplicates F) = Inr B1"
    and 2: "?new = [] \<and> B' = B1 \<or>
         ?new \<noteq> [] \<and> columns B' = columns B @ ?new \<and>
         rows B' = concat (map (join_rows ?R) (rows B1))"
    by (rule update_transects_cases)
  from assms(2,3) have cnew: "c \<in> set ?new" by simp
  from length_pos_if_in_set[OF this] have "?new \<noteq> []"
    using length_greater_0_conv by blast
  with 2 have cols: "columns B' = columns B @ ?new"
    and r: "rows B' = concat (map (join_rows ?R) (rows B1))" by blast+
  from cols cnew show "c \<in> set (columns B')" by simp
  have cR: "c \<in> set (columns ?R)" using cnew by (simp add: columns_select)
  show "\<forall>row\<in>set (rows B'). if fst row \<in> set (index F)
            then (\<exists>m\<in>set (rows F). fst m = fst row \<and> snd row c = snd m c)
            else snd row c = None"
  proof
    fix row assume "row \<in> set (rows B')"
    with r obtain l where l: "l \<in> set (rows B1)" and row: "row \<in> set (join_rows ?R l)" by auto
    have k: "fst row = fst l" using join_rows_keys[OF row] .
    show "if fst row \<in> set (index F)
            then (\<exists>m\<in>set (rows F). fst m = fst row \<and> snd row c = snd m c)
            else snd row c = None"
    proof (cases "fst l \<in> set (index F)")
      case True
      then have "fst l \<in> set (index ?R)" by (simp add: index_select)
      from join_rows_present[OF this] row
      obtain m where "m \<in> set (rows F)" "fst m = fst l"
        "row = (fst l, join_row (columns ?R) (snd l) (snd m))"
        by (auto simp: rows_select)
      with cR True k show ?thesis by (auto simp: join_row_def)
    next
      case False
      then have "fst l \<notin> set (index ?R)" by (simp add: index_select)
      from join_rows_absent[OF this] row cR False k show ?thesis
        by (auto simp: join_row_def)
    qed
  qed
  note ch = df_update_dd_char[OF 1]
  show "\<forall>l\<in>set (rows B). \<forall>m\<in>set (rows F). fst m = fst l \<longrightarrow>
            (\<exists>row\<in>set (rows B'). fst row = fst l \<and> snd row c = snd m c)"
  proof (intro ballI impI)
    fix l m assume l: "l \<in> set (rows B)" and m: "m \<in> set (rows F)" and lm: "fst m = fst l"
    from l obtain i where i: "i < length (rows B)" and li: "rows B ! i = l"
      by (auto simp: in_set_conv_nth)
    let ?l1 = "rows B1 ! i"
    from df_update_dd_key[OF 1 i] li have k1: "fst ?l1 = fst l" and in1: "?l1 \<in> set (rows B1)"
      by simp_all
    from m have "fst m \<in> fst ` set (rows F)" by (rule imageI)
    with lm k1 have "fst ?l1 \<in> set (index ?R)"
      by (simp add: index_def rows_select)
    from join_rows_present[OF this] m lm k1
    have "(fst ?l1, join_row (columns ?R) (snd ?l1) (snd m)) \<in> set (join_rows ?R ?l1)"
      by (auto simp: rows_select)
    with in1 r have "(fst ?l1, join_row (columns ?R) (snd ?l1) (snd m)) \<in> set (rows B')"
      by auto
    with k1 cR show "\<exists>row\<in>set (rows B'). fst row = fst l \<and> snd row c = snd m c"
      by (intro bexI[where x="(fst ?l1, join_row (columns ?R) (snd ?l1) (snd m))"])
         (auto simp: join_row_def)
  qed
qed

lemma aggregate_example:
  "aggregate_transects base_example [Some fragment_example] None = Inr merged_example"
  by (simp add: aggregate_transects_def merge_site_def cols_to_update_def base_example_def
      fragment_example_def intersection_def unique_def index_def loc_get_def loc_set_def Let_def
      merged_example_def)

lemma update_transects_example:
  "update_transects base_example fragment_example = Inr joined_example"
  by (simp add: update_transects_def df_update_def drop_duplicates_def reindex_def join_def
      join_rows_def select_def base_example_def fragment_example_def index_def update_row_def
      join_row_def Let_def joined_example_def fun_eq_iff)

subsection \<open>Claims about the merge\<close>

text \<open>
  C1. Merging one fragment \<open>F\<close> into a base table \<open>B\<close> leaves every row of \<open>B\<close> whose key
  is not in \<open>F\<close> unchanged in all columns, and the merged table has exactly the row keys of
  \<open>B\<close>: rows present only in \<open>F\<close> are never inserted. For \<open>aggregate_transects\<close> the index
  and the columns are those of \<open>B\<close> and each such row is the same row at the same position;
  for the merge of \<open>calculate_linear_models\<close> the key set is that of \<open>B\<close> and the rows
  outside \<open>F\<close> are, in order, the same in every column of \<open>B\<close>.
\<close>

theorem merge_base_preservation:
  "(aggregate_transects B [Some F] uc = Inr B' \<longrightarrow>
      index B' = index B \<and> columns B' = columns B \<and>
      (\<forall>i<length (rows B). fst (rows B ! i) \<notin> set (index F) \<longrightarrow> rows B' ! i = rows B ! i)) \<and>
   (update_transects B F = Inr B'' \<longrightarrow>
      set (index B'') = set (index B) \<and>
      rows_outside F (columns B) B'' = rows_outside F (columns B) B)"
  using aggregate_frame[of B F uc B'] update_transects_frame[of B F B''] by blast

theorem merge_base_preservation_witness:
  "aggregate_transects base_example [Some fragment_example] None = Inr merged_example \<and>
   index merged_example = [''t1'', ''t2'', ''t4''] \<and>
   fst (rows base_example ! 2) \<notin> set (index fragment_example) \<and>
   rows merged_example ! 2 = rows base_example ! 2 \<and>
   update_transects base_example fragment_example = Inr joined_example \<and>
   set (index joined_example) = {''t1'', ''t2'', ''t4''} \<and>
   rows_outside fragment_example (columns base_example) joined_example =
     [(''t4'', [Some 0.1, None, None])]"
proof -
  have i: "(2::nat) < length (rows base_example)"
    and k: "fst (rows base_example ! 2) \<notin> set (index fragment_example)"
    by (simp_all add: base_example_def fragment_example_def index_def)
  have b: "index base_example = [''t1'', ''t2'', ''t4'']"
    and o: "rows_outside fragment_example (columns base_example) base_example =
              [(''t4'', [Some 0.1, None, None])]"
    by (simp_all add: base_example_def fragment_example_def index_def rows_outside_def)
  from merge_base_preservation[of base_example fragment_example None merged_example joined_example]
    aggregate_example update_transects_example i k b o
  show ?thesis by simp
qed

text \<open>
  C2. If the fragment's value at row \<open>r\<close> and column \<open>c\<close> is null, the value at \<open>(r, c)\<close>
  after the merge is the base table's own value, so a null never overwrites a non-null value:
  at every position of \<open>B\<close> labelled \<open>r\<close> for \<open>aggregate_transects\<close>, and as the cells held
  at \<open>(r, c)\<close> for the merge of \<open>calculate_linear_models\<close>, where \<open>c\<close> is a column of \<open>B\<close>.
\<close>

theorem merge_null_safety:
  assumes "\<forall>m\<in>set (rows F). fst m = r \<longrightarrow> snd m c = None"
  shows "(aggregate_transects B [Some F] uc = Inr B' \<longrightarrow>
           (\<forall>i<length (rows B). fst (rows B ! i) = r \<longrightarrow>
              snd (rows B' ! i) c = snd (rows B ! i) c)) \<and>
         (update_transects B F = Inr B'' \<longrightarrow> c \<in> set (columns B) \<longrightarrow>
           cells_at B'' r c = cells_at B r c)"
  using aggregate_null_safe[of B F uc B' r c] update_null_safe[of B F B'' c r] assms by blast

theorem merge_null_safety_witness:
  "map (\<lambda>m. (fst m, snd m ''beach_slope'')) (rows fragment_example) =
     [(''t1'', Some 0.085), (''t2'', None), (''t3'', Some 0.2)] \<and>
   fst (rows base_example ! 1) = ''t2'' \<and>
   snd (rows base_example ! 1) ''beach_slope'' = Some 0.05 \<and>
   aggregate_transects base_example [Some fragment_example] None = Inr merged_example \<and>
   snd (rows merged_example ! 1) ''beach_slope'' = Some 0.05 \<and>
   update_transects base_example fragment_example = Inr joined_example \<and>
   cells_at joined_example ''t2'' ''beach_slope'' = {Some 0.05}"
proof -
  have h: "\<forall>m\<in>set (rows fragment_example). fst m = ''t2'' \<longrightarrow> snd m ''beach_slope'' = None"
    by (simp add: fragment_example_def)
  have b: "(1::nat) < length (rows base_example)" "fst (rows base_example ! 1) = ''t2''"
    "snd (rows base_example ! 1) ''beach_slope'' = Some 0.05"
    "''beach_slope'' \<in> set (columns base_example)"
    by (simp_all add: base_example_def)
  have "{r \<in> set (rows base_example). fst r = ''t2''} = {rows base_example ! 1}"
    by (auto simp: base_example_def)
  then have c: "cells_at base_example ''t2'' ''beach_slope'' = {Some 0.05}"
    using b(3) by (simp add: cells_at_def)
  have f: "map (\<lambda>m. (fst m, snd m ''beach_slope'')) (rows fragment_example) =
     [(''t1'', Some 0.085), (''t2'', None), (''t3'', Some 0.2)]"
    by (simp add: fragment_example_def)
  from merge_null_safety[OF h, of base_example None merged_example joined_example]
    aggregate_example update_transects_example b c f
  show ?thesis by simp
qed

text \<open>
  C9, as the code has it. In the merge of \<open>calculate_linear_models\<close> every column of the
  fragment that the base table lacks is left-joined on by row key: the column is in the
  result, a row whose key the fragment carries holds the value of a fragment row with that key
  (every such fragment row is represented), and a row the fragment does not cover holds
  null. \<open>aggregate_transects\<close> updates only the columns present in both tables: the columns
  of its result are those of the base table, and a column only the fragment has is not added.
\<close>

theorem merge_new_columns:
  "(update_transects B F = Inr B' \<longrightarrow> c \<in> set (columns F) \<longrightarrow> c \<notin> set (columns B) \<longrightarrow>
      c \<in> set (columns B') \<and> set (index B') = set (index B) \<and>
      (\<forall>row\<in>set (rows B'). if fst row \<in> set (index F)
          then (\<exists>m\<in>set (rows F). fst m = fst row \<and> snd row c = snd m c)
          else snd row c = None) \<and>
      (\<forall>l\<in>set (rows B). \<forall>m\<in>set (rows F). fst m = fst l \<longrightarrow>
          (\<exists>row\<in>set (rows B'). fst row = fst l \<and> snd row c = snd m c))) \<and>
   (aggregate_transects B [Some F] uc = Inr B'' \<longrightarrow> columns B'' = columns B)"
  using update_new_column[of B F B' c] update_transects_frame(1)[of B F B']
    aggregate_frame(2)[of B F uc B'']
  by blast

theorem merge_new_columns_witness:
  "update_transects base_example fragment_example = Inr joined_example \<and>
   ''trend'' \<in> set (columns fragment_example) \<and> ''trend'' \<notin> set (columns base_example) \<and>
   ''trend'' \<in> set (columns joined_example) \<and>
   map (\<lambda>row. (fst row, snd row ''trend'')) (rows joined_example) =
     [(''t1'', Some 1.5), (''t2'', Some (- 0.3)), (''t4'', None)] \<and>
   aggregate_transects base_example [Some fragment_example] None = Inr merged_example \<and>
   columns merged_example = columns base_example"
proof -
  have c: "''trend'' \<in> set (columns fragment_example)" "''trend'' \<notin> set (columns base_example)"
    by (simp_all add: fragment_example_def base_example_def)
  have v: "map (\<lambda>row. (fst row, snd row ''trend'')) (rows joined_example) =
     [(''t1'', Some 1.5), (''t2'', Some (- 0.3)), (''t4'', None)]"
    by (simp add: joined_example_def)
  from merge_new_columns[of base_example fragment_example joined_example "''trend''" None merged_example]
    update_transects_example aggregate_example c v
  show ?thesis by simp
qed

text \<open>
  C9 as stated fails for \<open>aggregate_transects\<close>: the fragment's column \<open>trend\<close>, which the base
  table lacks, is not in the table it writes.
\<close>

theorem aggregate_discards_new_column:
  "''trend'' \<in> set (columns fragment_example) \<and> ''trend'' \<notin> set (columns base_example) \<and>
   aggregate_transects base_example [Some fragment_example] None = Inr merged_example \<and>
   ''trend'' \<notin> set (columns merged_example)"
  using aggregate_example
  by (simp add: fragment_example_def base_example_def merged_example_def)

section \<open>Properties of the observation store\<close>

subsection \<open>Start date\<close>

lemma str_lt_irrefl: "\<not> str_lt s s"
  by (induction s) auto

lemma fold_max_Max: "fold max xs (x :: 'a :: linorder) = Max (set (x # xs))"
proof (induction xs arbitrary: x)
  case Nil
  then show ?case by simp
next
  case (Cons y ys)
  have "fold max (y # ys) x = fold max ys (max y x)" by simp
  also have "\<dots> = Max (set (max y x # ys))" by (rule Cons.IH)
  also have "\<dots> = Max (set (x # y # ys))"
    by (cases "set ys = {}") (auto simp: max.commute max.left_commute max.assoc)
  finally show ?case .
qed

lemma fst_Max_lex:
  fixes A :: "('a :: linorder \<times> 'b :: linorder) set"
  assumes "finite A" and "A \<noteq> {}"
  shows "fst (Max A) = Max (fst ` A)"
proof (rule mono_Max_commute[OF _ assms])
  show "mono (fst :: 'a \<times> 'b \<Rightarrow> 'a)"
    by (rule monoI) (auto simp: less_eq_prod_def)
qed

lemma next_start_Max:
  "next_start (ob # obs) = date_str (add_one_day (Max ((\<lambda>r. fst (dates r)) ` set (ob # obs))))"
proof -
  have "fst (fold max (map dates obs) (dates ob)) = fst (Max (dates ` set (ob # obs)))"
    by (simp add: fold_max_Max)
  also have "\<dots> = Max (fst ` dates ` set (ob # obs))"
    by (rule fst_Max_lex) auto
  also have "fst ` dates ` set (ob # obs) = (\<lambda>r. fst (dates r)) ` set (ob # obs)"
    by (simp add: image_image)
  finally show ?thesis by (simp add: next_start_def)
qed

lemma wrapper_start_lower_bound: "\<not> str_lt (snd (wrapper_start force start existing)) start"
  by (auto simp: wrapper_start_def Let_def str_lt_irrefl split: prod.splits)

lemma of_char_digit: "of_char (digit n) = (48 + n mod 10 :: nat)"
proof -
  have "k < 10 \<Longrightarrow> k \<in> {0, 1, 2, 3, 4, 5, 6, 7, 8, 9}" for k :: nat by auto
  then have "n mod 10 \<in> {0, 1, 2, 3, 4, 5, 6, 7, 8, 9}" by simp
  then show ?thesis by (auto simp: digit_def)
qed

lemma less_divmod:
  fixes a b n :: nat
  assumes "0 < n"
  shows "a < b \<or> (a = b \<and> R) \<longleftrightarrow>
         a div n < b div n \<or> (a div n = b div n \<and> (a mod n < b mod n \<or> (a mod n = b mod n \<and> R)))"
proof -
  have a: "a = n * (a div n) + a mod n" and b: "b = n * (b div n) + b mod n" by simp_all
  have lt: "a < b" if "a div n < b div n"
  proof -
    from that have "a div n + 1 \<le> b div n" by simp
    then have "n * (a div n + 1) \<le> n * (b div n)" by (rule mult_le_mono2)
    moreover have "a < n * (a div n + 1)" using assms
      by (metis a add_less_cancel_left distrib_left mod_less_divisor mult.right_neutral)
    moreover have "n * (b div n) \<le> b" by simp
    ultimately show ?thesis by linarith
  qed
  show ?thesis
  proof (cases "a div n = b div n")
    case True
    then have "a < b \<longleftrightarrow> a mod n < b mod n" "a = b \<longleftrightarrow> a mod n = b mod n"
      using a b by (metis nat_add_left_cancel_less, metis)
    with True show ?thesis by auto
  next
    case False
    then have "a \<noteq> b" by auto
    show ?thesis
    proof (cases "a div n < b div n")
      case True
      with lt show ?thesis by auto
    next
      case False
      with \<open>a div n \<noteq> b div n\<close> have "b div n < a div n" by simp
      then have "b < a"
      proof -
        assume h: "b div n < a div n"
        show "b < a"
        proof (rule ccontr)
          assume "\<not> b < a"
          then have "a \<le> b" by simp
          then have "a div n \<le> b div n" by (rule div_le_mono)
          with h show False by simp
        qed
      qed
      with False \<open>a div n \<noteq> b div n\<close> show ?thesis by auto
    qed
  qed
qed

lemma digits2:
  fixes a :: nat
  assumes "a < 100"
  shows "a div 10 mod 10 = a div 10"
  using assms by simp

lemma digits4:
  fixes a :: nat
  assumes "a < 10000"
  shows "a div 1000 mod 10 = a div 100 div 10"
    and "a div 10 mod 10 = a mod 100 div 10" and "a mod 10 = a mod 100 mod 10"
proof -
  have "a div 1000 = a div (100 * 10)" by simp
  also have "\<dots> = a div 100 div 10" by (simp only: div_mult2_eq)
  finally have e: "a div 1000 = a div 100 div 10" .
  from assms have "a div 1000 < 10" by simp
  then show "a div 1000 mod 10 = a div 100 div 10" using e by simp
  have "a mod (10 * 10) = 10 * (a div 10 mod 10) + a mod 10" by (rule mod_mult2_eq)
  then have "a mod 100 = 10 * (a div 10 mod 10) + a mod 10" by simp
  then show "a div 10 mod 10 = a mod 100 div 10" by simp
  show "a mod 10 = a mod 100 mod 10" by (simp add: mod_mod_cancel)
qed

lemma lex2:
  fixes a b :: nat
  assumes "a < 100" "b < 100"
  shows "(a div 10 mod 10 < b div 10 mod 10 \<or>
          (a div 10 mod 10 = b div 10 mod 10 \<and> (a mod 10 < b mod 10 \<or> (a mod 10 = b mod 10 \<and> R))))
         \<longleftrightarrow> a < b \<or> (a = b \<and> R)"
  using assms less_divmod[of 10 a b R] by (simp add: digits2)

lemma lex4:
  fixes a b :: nat
  assumes "a < 10000" "b < 10000"
  shows "(a div 1000 mod 10 < b div 1000 mod 10 \<or>
          (a div 1000 mod 10 = b div 1000 mod 10 \<and>
           (a div 100 mod 10 < b div 100 mod 10 \<or>
            (a div 100 mod 10 = b div 100 mod 10 \<and>
             (a div 10 mod 10 < b div 10 mod 10 \<or>
              (a div 10 mod 10 = b div 10 mod 10 \<and> (a mod 10 < b mod 10 \<or> (a mod 10 = b mod 10 \<and> R))))))))
         \<longleftrightarrow> a < b \<or> (a = b \<and> R)"
proof -
  let ?R' = "a mod 100 < b mod 100 \<or> (a mod 100 = b mod 100 \<and> R)"
  have l2: "(a mod 100 div 10 < b mod 100 div 10 \<or>
             (a mod 100 div 10 = b mod 100 div 10 \<and>
              (a mod 100 mod 10 < b mod 100 mod 10 \<or> (a mod 100 mod 10 = b mod 100 mod 10 \<and> R)))) = ?R'"
    by (rule less_divmod[of 10 "a mod 100" "b mod 100" R, symmetric]) simp
  have l1: "(a div 100 div 10 < b div 100 div 10 \<or>
             (a div 100 div 10 = b div 100 div 10 \<and>
              (a div 100 mod 10 < b div 100 mod 10 \<or> (a div 100 mod 10 = b div 100 mod 10 \<and> ?R')))) =
            (a div 100 < b div 100 \<or> (a div 100 = b div 100 \<and> ?R'))"
    by (rule less_divmod[of 10 "a div 100" "b div 100" ?R', symmetric]) simp
  have l3: "(a div 100 < b div 100 \<or> (a div 100 = b div 100 \<and> ?R')) = (a < b \<or> (a = b \<and> R))"
    by (rule less_divmod[of 100 a b R, symmetric]) simp
  show ?thesis
    unfolding digits4[OF assms(1)] digits4[OF assms(2)] l2 l1 l3 ..
qed

lemma digit_eq_iff: "digit a = digit b \<longleftrightarrow> a mod 10 = b mod 10"
proof
  assume "digit a = digit b"
  then have "(of_char (digit a) :: nat) = of_char (digit b)" by simp
  then show "a mod 10 = b mod 10" by (simp add: of_char_digit)
next
  assume "a mod 10 = b mod 10"
  then show "digit a = digit b" by (simp add: digit_def)
qed

lemma str_lt_digit:
  "str_lt (digit a # xs) (digit b # ys) \<longleftrightarrow>
     a mod 10 < b mod 10 \<or> (a mod 10 = b mod 10 \<and> str_lt xs ys)"
  by (simp add: of_char_digit digit_eq_iff)

lemma str_lt_dash: "str_lt (CHR ''-'' # xs) (CHR ''-'' # ys) = str_lt xs ys"
  by simp

lemma days_in_month_bounds: "28 \<le> days_in_month y m" "days_in_month y m \<le> 31"
  by (simp_all add: days_in_month_def)

lemma date_str_less:
  assumes "valid_date d1" and "valid_date d2"
  shows "str_lt (date_str d1) (date_str d2) \<longleftrightarrow> d1 < d2"
proof -
  obtain y1 m1 a1 where d1: "d1 = (y1, m1, a1)" by (cases d1) auto
  obtain y2 m2 a2 where d2: "d2 = (y2, m2, a2)" by (cases d2) auto
  from assms d1 d2 have y: "y1 < 10000" "y2 < 10000" and m: "m1 < 100" "m2 < 100"
    by (simp_all add: valid_date_def)
  from assms d1 d2 days_in_month_bounds(2)[of y1 m1] days_in_month_bounds(2)[of y2 m2]
  have a: "a1 < 100" "a2 < 100"
    by (simp_all add: valid_date_def)
  have "str_lt (date_str d1) (date_str d2) \<longleftrightarrow>
        y1 < y2 \<or> (y1 = y2 \<and> (m1 < m2 \<or> (m1 = m2 \<and> (a1 < a2 \<or> (a1 = a2 \<and> False)))))"
    unfolding d1 d2 date_str_def pad4_def pad2_def prod.case append.simps str_lt_digit str_lt_dash
      str_lt.simps(1)
    unfolding lex2[OF a] lex2[OF m] lex4[OF y] ..
  also have "\<dots> \<longleftrightarrow> d1 < d2"
    by (auto simp: d1 d2 less_prod_def)
  finally show ?thesis .
qed

lemma valid_add_one_day:
  assumes "valid_date d" and "fst d < 9999"
  shows "valid_date (add_one_day d)"
proof -
  obtain y m a where d: "d = (y, m, a)" by (cases d) auto
  from days_in_month_bounds(1)[of y "m + 1"] have "1 \<le> days_in_month y (m + 1)" by simp
  moreover from days_in_month_bounds(1)[of "y + 1" 1] have "1 \<le> days_in_month (y + 1) 1" by simp
  ultimately show ?thesis using assms
    by (auto simp: d valid_date_def add_one_day_def)
qed

lemma clamp_date_str:
  assumes "valid_date a" and "valid_date b"
  shows "(if str_lt (date_str a) (date_str b) then date_str b else date_str a) = date_str (max a b)"
  using date_str_less[OF assms] by (auto simp: max_def)

lemma next_start_valid:
  assumes "\<forall>r\<in>set (ob # obs). valid_date (fst (dates r)) \<and> fst (fst (dates r)) < 9999"
  shows "valid_date (add_one_day (Max ((\<lambda>r. fst (dates r)) ` set (ob # obs))))"
proof -
  let ?A = "(\<lambda>r. fst (dates r)) ` set (ob # obs)"
  have "Max ?A \<in> ?A" by (rule Max_in) auto
  with assms have "valid_date (Max ?A)" and "fst (Max ?A) < 9999" by auto
  then show ?thesis by (rule valid_add_one_day)
qed

lemma wrapper_start_stored:
  assumes "valid_date s"
    and "\<forall>r\<in>set (ob # obs). valid_date (fst (dates r)) \<and> fst (fst (dates r)) < 9999"
  shows "wrapper_start None (date_str s) (Some (ob # obs)) =
           (ob # obs, date_str (max s (add_one_day (Max ((\<lambda>r. fst (dates r)) ` set (ob # obs))))))"
proof -
  let ?n = "add_one_day (Max ((\<lambda>r. fst (dates r)) ` set (ob # obs)))"
  have "wrapper_start None (date_str s) (Some (ob # obs)) =
          (ob # obs, if str_lt (date_str ?n) (date_str s) then date_str s else date_str ?n)"
    by (simp add: wrapper_start_def next_start_Max)
  also have "(if str_lt (date_str ?n) (date_str s) then date_str s else date_str ?n) = date_str (max ?n s)"
    by (rule clamp_date_str[OF next_start_valid[OF assms(2)] assms(1)])
  finally show ?thesis by (simp add: max.commute)
qed

lemma script_start_stored_test:
  assumes "valid_date s"
    and "\<forall>r\<in>set (ob # obs). valid_date (fst (dates r)) \<and> fst (fst (dates r)) < 9999"
  shows "script_start [] True (date_str s) (Some (ob # obs)) =
           (ob # obs, date_str (max s (add_one_day (Max ((\<lambda>r. fst (dates r)) ` set (ob # obs))))))"
proof -
  let ?n = "add_one_day (Max ((\<lambda>r. fst (dates r)) ` set (ob # obs)))"
  have "script_start [] True (date_str s) (Some (ob # obs)) =
          (ob # obs, if str_lt (date_str ?n) (date_str s) then date_str s else date_str ?n)"
    by (simp add: script_start_def next_start_Max Let_def)
  also have "(if str_lt (date_str ?n) (date_str s) then date_str s else date_str ?n) = date_str (max ?n s)"
    by (rule clamp_date_str[OF next_start_valid[OF assms(2)] assms(1)])
  finally show ?thesis by (simp add: max.commute)
qed

lemma script_start_stored_plain:
  "script_start [] False ts (Some (ob # obs)) =
     (ob # obs, date_str (add_one_day (Max ((\<lambda>r. fst (dates r)) ` set (ob # obs)))))"
  by (simp add: script_start_def next_start_Max Let_def)

lemma script_start_forced: "f \<noteq> [] \<Longrightarrow> script_start f tm ts existing = ([], f)"
  by (simp add: script_start_def)

lemma wrapper_start_forced:
  "f \<noteq> [] \<Longrightarrow> wrapper_start (Some f) start existing = ([], if str_lt f start then start else f)"
  by (simp add: wrapper_start_def)

text \<open>
  C5, as the code has it. With no override and a non-empty stored series, the requested start
  date is the day after the latest stored date; it is replaced by the configured start date
  when it precedes it, in the wrapper always and in \<open>batch_process_NZ.py\<close> in test mode only
  (outside test mode the script applies no lower bound). With an override the stored series
  is not read: the script uses the override verbatim, the wrapper uses it unless it precedes
  \<open>start_date\<close>, and then uses \<open>start_date\<close>. The wrapper's start date never precedes
  \<open>start_date\<close>.
\<close>

theorem start_date_rule:
  "(valid_date s \<and> (\<forall>r\<in>set (ob # obs). valid_date (fst (dates r)) \<and> fst (fst (dates r)) < 9999) \<longrightarrow>
      wrapper_start None (date_str s) (Some (ob # obs)) =
        (ob # obs, date_str (max s (add_one_day (Max ((\<lambda>r. fst (dates r)) ` set (ob # obs)))))) \<and>
      script_start [] True (date_str s) (Some (ob # obs)) =
        (ob # obs, date_str (max s (add_one_day (Max ((\<lambda>r. fst (dates r)) ` set (ob # obs))))))) \<and>
   script_start [] False ts (Some (ob # obs)) =
     (ob # obs, date_str (add_one_day (Max ((\<lambda>r. fst (dates r)) ` set (ob # obs))))) \<and>
   (f \<noteq> [] \<longrightarrow>
      script_start f tm ts existing = ([], f) \<and>
      wrapper_start (Some f) start existing = ([], if str_lt f start then start else f)) \<and>
   \<not> str_lt (snd (wrapper_start force start existing)) start"
  using wrapper_start_stored[of s ob obs] script_start_stored_test[of s ob obs]
    script_start_stored_plain[of ts ob obs] script_start_forced[of f tm ts existing]
    wrapper_start_forced[of f start existing] wrapper_start_lower_bound[of force start existing]
  by blast

lemma stored_example_max:
  "Max ((\<lambda>r. fst (dates r)) ` set stored_example) = (2020, 6, 30)"
  by (simp add: stored_example_def)

lemma date_str_examples:
  "date_str (1984, 1, 1) = ''1984-01-01''" "date_str (2020, 7, 1) = ''2020-07-01''"
  "add_one_day (2020, 6, 30) = (2020, 7, 1)"
  by (simp_all add: date_str_def pad4_def pad2_def digit_def add_one_day_def days_in_month_def)

theorem start_date_rule_witness:
  "valid_date (1984, 1, 1) \<and>
   list_all (\<lambda>r. valid_date (fst (dates r)) \<and> fst (fst (dates r)) < 9999) stored_example \<and>
   wrapper_start None ''1984-01-01'' (Some stored_example) = (stored_example, ''2020-07-01'') \<and>
   script_start [] True ''1984-01-01'' (Some stored_example) = (stored_example, ''2020-07-01'') \<and>
   script_start [] False ''1984-01-01'' (Some stored_example) = (stored_example, ''2020-07-01'') \<and>
   script_start ''2019-01-01'' True ''2023-01-01'' (Some stored_example) = ([], ''2019-01-01'') \<and>
   wrapper_start (Some ''2019-01-01'') ''1984-01-01'' (Some stored_example) = ([], ''2019-01-01'') \<and>
   \<not> str_lt (snd (wrapper_start (Some ''2019-01-01'') ''2020-01-01'' (Some stored_example))) ''2020-01-01''"
proof -
  have v: "valid_date (1984, 1, 1)"
    by (simp add: valid_date_def days_in_month_def)
  have a: "list_all (\<lambda>r. valid_date (fst (dates r)) \<and> fst (fst (dates r)) < 9999) stored_example"
    by (simp add: stored_example_def valid_date_def days_in_month_def)
  then have b: "\<forall>r\<in>set (hd stored_example # tl stored_example).
      valid_date (fst (dates r)) \<and> fst (fst (dates r)) < 9999"
    by (simp add: stored_example_def)
  have e: "hd stored_example # tl stored_example = stored_example"
    by (simp add: stored_example_def)
  have m: "max (1984, 1, 1) (2020, 7, 1) = ((2020, 7, 1) :: date)"
    by (simp add: max_def less_eq_prod_def)
  have n: "''2019-01-01'' \<noteq> []" by simp
  have l: "\<not> str_lt ''2019-01-01'' ''1984-01-01''" by simp
  note r = start_date_rule[where s = "(1984, 1, 1)" and ob = "hd stored_example"
      and obs = "tl stored_example" and f = "''2019-01-01''" and tm = True
      and existing = "Some stored_example" and force = "Some ''2019-01-01''"]
  from r[where start = "''1984-01-01''" and ts = "''2023-01-01''"]
    r[where start = "''2020-01-01''" and ts = "''1984-01-01''"] v a b n l
  show ?thesis
    unfolding e stored_example_max date_str_examples m
    by simp
qed

text \<open>
  C5 as stated fails in the wrapper: an override earlier than \<open>start_date\<close> is not used
  verbatim, the run starts at \<open>start_date\<close>.
\<close>

theorem forced_start_date_clamped:
  "wrapper_start (Some ''2019-01-01'') ''2020-01-01'' (Some stored_example) = ([], ''2020-01-01'') \<and>
   ''2020-01-01'' \<noteq> ''2019-01-01''"
  by (simp add: wrapper_start_def)

section \<open>Properties of the outlier filter\<close>

lemma zip_tolist: "dropna s = c \<Longrightarrow> zip (index_tolist c) (map Some (tolist c)) = c"
proof -
  assume "dropna s = c"
  then have "\<forall>p\<in>set c. snd p \<noteq> None" by (auto simp: dropna_def)
  then show ?thesis
    by (induction c) (auto simp: index_tolist_def tolist_def)
qed

lemma zip_swap_Some:
  "length vs = length ls \<Longrightarrow> zip ls (map Some vs) = map (\<lambda>(v, l). (l, Some v)) (zip vs ls)"
  by (induction vs ls rule: list_induct2) auto

lemma subseq_zip_swap:
  assumes "subseq (zip vs ls) (zip ws ks)"
    and "length vs = length ls" and "length ws = length ks"
  shows "subseq (zip ls (map Some vs)) (zip ks (map Some ws))"
proof -
  from assms(1) have "subseq (map (\<lambda>(v, l). (l, Some v)) (zip vs ls))
                             (map (\<lambda>(v, l). (l, Some v)) (zip ws ks))"
    by (rule subseq_map)
  then show ?thesis by (simp add: zip_swap_Some[OF assms(2)] zip_swap_Some[OF assms(3)])
qed

lemma length_pop: "j < length xs \<Longrightarrow> length (pop j xs) = length xs - 1"
  by (simp add: pop_def)

lemma zip_pop: "length xs = length ys \<Longrightarrow> zip (pop j xs) (pop j ys) = pop j (zip xs ys)"
  by (simp add: pop_def take_zip drop_zip)

lemma subseq_pop: "subseq (pop j xs) xs"
proof -
  have "drop (Suc j) xs = drop 1 (drop j xs)" by simp
  moreover have "subseq (drop 1 (drop j xs)) (drop j xs)"
    by (rule sublist_imp_subseq[OF sublist_drop])
  ultimately have "subseq (drop (Suc j) xs) (drop j xs)" by simp
  then have "subseq (take j xs @ drop (Suc j) xs) (take j xs @ drop j xs)"
    by (simp only: subseq_append')
  then show ?thesis by (simp add: pop_def)
qed

lemma outlier_loop_subseq:
  "length ct = length dt \<Longrightarrow> outlier_loop cc ct dt k = Inr (vs, ls) \<Longrightarrow>
     length vs = length ls \<and> subseq (zip vs ls) (zip ct dt)"
proof (induction cc ct dt k rule: outlier_loop.induct)
  case (1 cc ct dt k)
  show ?case
  proof (cases "k < length ct \<and> length ct \<noteq> 1")
    case False
    with "1.prems" show ?thesis
      by (auto simp: outlier_loop.simps[of cc ct dt k] split: if_splits)
  next
    case True
    show ?thesis
    proof (cases "find (is_outlier cc ct) [0..<length ct]")
      case None
      with True "1.prems" show ?thesis
        by (simp add: outlier_loop.simps[of cc ct dt k])
    next
      case (Some j)
      then have j: "j < length ct" by (auto simp: find_Some_iff)
      with "1.prems"(1) have jd: "j < length dt" by simp
      from True Some jd "1.prems"(2)
      have r: "outlier_loop cc (pop j ct) (pop j dt) (j + 1) = Inr (vs, ls)"
        by (simp add: outlier_loop.simps[of cc ct dt k])
      have l: "length (pop j ct) = length (pop j dt)"
        using j jd "1.prems"(1) by (simp add: length_pop)
      from True Some jd have "length vs = length ls \<and> subseq (zip vs ls) (zip (pop j ct) (pop j dt))"
        by (intro "1.IH"[OF _ _ Some _ l r]) simp_all
      moreover have "subseq (zip (pop j ct) (pop j dt)) (zip ct dt)"
        by (simp add: zip_pop[OF "1.prems"(1)] subseq_pop)
      ultimately show ?thesis using subseq_order.order_trans by blast
    qed
  qed
qed

lemma outlier_loop_returns:
  "length ct = length dt \<Longrightarrow> (k < length ct \<longrightarrow> length ct \<noteq> 1) \<Longrightarrow>
     \<exists>r. outlier_loop cc ct dt k = Inr r"
proof (induction cc ct dt k rule: outlier_loop.induct)
  case (1 cc ct dt k)
  show ?case
  proof (cases "k < length ct")
    case False
    then show ?thesis by (simp add: outlier_loop.simps[of cc ct dt k])
  next
    case True
    with "1.prems" have n1: "length ct \<noteq> 1" by simp
    show ?thesis
    proof (cases "find (is_outlier cc ct) [0..<length ct]")
      case None
      with True n1 show ?thesis by (simp add: outlier_loop.simps[of cc ct dt k])
    next
      case (Some j)
      then have j: "j < length ct" by (auto simp: find_Some_iff)
      with "1.prems"(1) have jd: "j < length dt" by simp
      have l: "length (pop j ct) = length (pop j dt)"
        using j jd "1.prems"(1) by (simp add: length_pop)
      have "j + 1 < length (pop j ct) \<longrightarrow> length (pop j ct) \<noteq> 1" by simp
      with True n1 Some jd l have "\<exists>r. outlier_loop cc (pop j ct) (pop j dt) (j + 1) = Inr r"
        by (intro "1.IH"[OF _ _ Some]) simp_all
      with True n1 Some jd show ?thesis by (simp add: outlier_loop.simps[of cc ct dt k])
    qed
  qed
qed

lemma outlier_loop_one_point: "length ct = 1 \<Longrightarrow> outlier_loop cc ct dt 0 = Inl IndexError"
  by (simp add: outlier_loop.simps[of cc ct dt 0])

lemma lengths_tolist: "length (tolist c) = length (index_tolist c)" "length (tolist c) = length c"
  by (simp_all add: tolist_def index_tolist_def)

lemma library_subseq:
  assumes "identify_outliers (tolist (dropna s)) (index_tolist (dropna s)) th = Inr (vs, ls)"
  shows "\<exists>out. Series vs ls = Inr out \<and> subseq out (dropna s) \<and> length out \<le> length (dropna s)"
proof -
  let ?c = "dropna s"
  from outlier_loop_subseq[OF lengths_tolist(1) assms[unfolded identify_outliers_def]]
  have l: "length vs = length ls" and s: "subseq (zip vs ls) (zip (tolist ?c) (index_tolist ?c))"
    by simp_all
  from subseq_zip_swap[OF s l lengths_tolist(1)] zip_tolist[OF refl, of s]
  have ss: "subseq (zip ls (map Some vs)) ?c" by simp
  then have "length (zip ls (map Some vs)) \<le> length ?c" by (rule list_emb_length)
  with ss l show ?thesis by (simp add: Series_def)
qed

lemma despike_subseq:
  assumes "despike th s = Inr out"
  shows "subseq out (dropna s) \<and> length out \<le> length (dropna s)"
proof -
  from assms obtain vs ls where
    i: "identify_outliers (tolist (dropna s)) (index_tolist (dropna s)) th = Inr (vs, ls)"
    and o: "Series vs ls = Inr out"
    by (auto simp: despike_def Let_def split: sum.splits)
  from library_subseq[OF i] o show ?thesis by auto
qed

lemma despike_lm_subseq:
  assumes "despike_lm th s = Inr out"
  shows "subseq out (dropna s) \<and> length out \<le> length (dropna s)"
proof (cases "dropna s = []")
  case True
  with assms show ?thesis by (simp add: despike_lm_def)
next
  case False
  with assms obtain vs ls where
    i: "identify_outliers (tolist (dropna s)) (index_tolist (dropna s)) th = Inr (vs, ls)"
    and o: "Series vs ls = Inr out"
    by (auto simp: despike_lm_def Let_def split: sum.splits)
  from library_subseq[OF i] o show ?thesis by auto
qed

lemma despike_returns:
  assumes "length (dropna s) \<noteq> 1"
  shows "\<exists>out. despike th s = Inr out" and "\<exists>out. despike_lm th s = Inr out"
proof -
  let ?c = "dropna s"
  have "0 < length (tolist ?c) \<longrightarrow> length (tolist ?c) \<noteq> 1"
    using assms by (simp add: lengths_tolist(2))
  from outlier_loop_returns[OF lengths_tolist(1) this, of th]
  obtain vs ls where i: "identify_outliers (tolist ?c) (index_tolist ?c) th = Inr (vs, ls)"
    by (auto simp: identify_outliers_def)
  from library_subseq[OF i] obtain out where "Series vs ls = Inr out" by blast
  with i show "\<exists>out. despike th s = Inr out" and "\<exists>out. despike_lm th s = Inr out"
    by (simp_all add: despike_def despike_lm_def Let_def)
qed

lemma despike_one_point:
  assumes "length (dropna s) = 1"
  shows "despike th s = Inl IndexError" and "despike_lm th s = Inl IndexError"
proof -
  from assms have "length (tolist (dropna s)) = 1" by (simp add: lengths_tolist(2))
  from outlier_loop_one_point[OF this]
  have "identify_outliers (tolist (dropna s)) (index_tolist (dropna s)) th = Inl IndexError"
    by (simp add: identify_outliers_def)
  moreover from assms have "dropna s \<noteq> []" by auto
  ultimately show "despike th s = Inl IndexError" and "despike_lm th s = Inl IndexError"
    by (simp_all add: despike_def despike_lm_def Let_def)
qed

text \<open>
  C6. For every series and threshold, what \<open>despike\<close> returns is a subsequence of the
  non-null points of its input: the points returned are points of the input with their own
  timestamps and values, in their order, none invented or modified, so there are at most as
  many as non-null input points. Both versions return for every series but one with exactly
  one non-null value, on which the library's test raises IndexError and nothing is returned.
\<close>

theorem despike_subsequence:
  "(despike threshold s = Inr out \<longrightarrow>
      subseq out (dropna s) \<and> length out \<le> length (dropna s)) \<and>
   (despike_lm threshold s = Inr out' \<longrightarrow>
      subseq out' (dropna s) \<and> length out' \<le> length (dropna s)) \<and>
   (length (dropna s) \<noteq> 1 \<longrightarrow>
      (\<exists>r. despike threshold s = Inr r) \<and> (\<exists>r. despike_lm threshold s = Inr r)) \<and>
   (length (dropna s) = 1 \<longrightarrow>
      despike threshold s = Inl IndexError \<and> despike_lm threshold s = Inl IndexError)"
  using despike_subseq[of threshold s out] despike_lm_subseq[of threshold s out']
    despike_returns[of s threshold] despike_one_point[of s threshold]
  by blast

lemma despike_example:
  "despike 40 chainage_example = Inr [(1, Some 100), (3, Some 103), (5, Some 101)]"
  "despike_lm 40 chainage_example = Inr [(1, Some 100), (3, Some 103), (5, Some 101)]"
  "dropna chainage_example = [(1, Some 100), (3, Some 103), (4, Some 190), (5, Some 101)]"
  by (simp_all add: despike_def despike_lm_def dropna_def chainage_example_def tolist_def
      index_tolist_def identify_outliers_def outlier_loop.simps is_outlier_def pop_def Series_def
      Let_def upt_rec)

theorem despike_subsequence_witness:
  "despike 40 chainage_example = Inr [(1, Some 100), (3, Some 103), (5, Some 101)] \<and>
   despike_lm 40 chainage_example = Inr [(1, Some 100), (3, Some 103), (5, Some 101)] \<and>
   dropna chainage_example = [(1, Some 100), (3, Some 103), (4, Some 190), (5, Some 101)] \<and>
   subseq [(1, Some 100), (3, Some 103), (5, Some 101)] (dropna chainage_example) \<and>
   length (dropna one_point_example) = 1 \<and>
   despike 40 one_point_example = Inl IndexError \<and>
   despike_lm 40 one_point_example = Inl IndexError"
proof -
  have l: "length (dropna chainage_example) \<noteq> 1" "length (dropna one_point_example) = 1"
    by (simp_all add: despike_example(3)) (simp add: dropna_def one_point_example_def)
  from despike_subsequence[of 40 chainage_example "[(1, Some 100), (3, Some 103), (5, Some 101)]"
      "[(1, Some 100), (3, Some 103), (5, Some 101)]"] despike_example(1,2)
  have s: "subseq [(1, Some 100), (3, Some 103), (5, Some 101)] (dropna chainage_example)"
    by simp
  from despike_subsequence[of 40 one_point_example] l(2)
  have e: "despike 40 one_point_example = Inl IndexError"
    "despike_lm 40 one_point_example = Inl IndexError"
    by simp_all
  from despike_example s l(2) e show ?thesis by simp
qed

section \<open>Properties of the slope estimator\<close>

lemma align_example: "align_dates series_example tides_example = Inr (series_example, tides_example)"
  by (simp add: align_dates_def series_example_def tides_example_def round_10min_def ten_minutes_def Let_def)

lemma fit_inputs_example:
  "fit_inputs series_example tides_example ''nzd0001-01'' =
     Inr (Some ([((2020, 1, 1), 79380000000000), ((2020, 1, 17), 79440000000000), ((2020, 2, 2), 79320000000000)],
                [100, 102, 101], [Some 0.5, Some (- 0.2), Some 0.3]))"
  "fit_inputs series_example tides_example ''nzd0001-02'' =
     Inr (Some ([((2020, 1, 1), 79380000000000), ((2020, 2, 2), 79320000000000)],
                [200, 203], [Some 0.5, Some 0.3]))"
  by (simp_all add: fit_inputs_def series_example_def tides_example_def mask_select_def Let_def)

lemma estimate_keys_example:
  "estimate_keys lib_example () series_example tides_example [''nzd0001-01'', ''nzd0001-02''] [] =
     Inr [(''nzd0001-01'', 0.1, 0.08, 0.12), (''nzd0001-02'', 0.1, 0.08, 0.12)]"
  "estimate_keys lib_example () series_example tides_example [''nzd0001-02''] [] =
     Inr [(''nzd0001-02'', 0.1, 0.08, 0.12)]"
  by (simp_all add: fit_inputs_example lib_example_def dict_set_def)

lemma lib_example_peak: "find_tide_peak lib_example i t = Inr ()"
  by (simp add: lib_example_def)

text \<open>
  C7 at a site with one solved and one unsolved transect. \<open>estimate_slopes\<close> of
  \<open>slope_estimation.py\<close> selects the site because of the unsolved transect and then estimates
  every column of the site's table: the slope 0.05 of the solved transect is replaced by the
  new estimate. The wrapper, on the same tables, estimates the unsolved transect only.
\<close>

theorem script_overwrites_solved_slope:
  "map (\<lambda>t. (transect_id t, beach_slope t)) transects_example =
     [(''nzd0001-01'', Some 0.05), (''nzd0001-02'', None)] \<and>
   estimate_slopes lib_example files_example [] transects_example =
     Inr (Some [\<lparr>transect_id = ''nzd0001-01'', site_id = Some ''nzd0001'', beach_slope = Some 0.1,
                  cil = Some 0.08, ciu = Some 0.12\<rparr>,
                \<lparr>transect_id = ''nzd0001-02'', site_id = Some ''nzd0001'', beach_slope = Some 0.1,
                  cil = Some 0.08, ciu = Some 0.12\<rparr>]) \<and>
   estimate_slopes_for_site lib_example ''nzd0001'' series_example tides_example transects_example =
     Inr [\<lparr>transect_id = ''nzd0001-01'', site_id = Some ''nzd0001'', beach_slope = Some 0.05,
            cil = Some 0.04, ciu = Some 0.06\<rparr>,
          \<lparr>transect_id = ''nzd0001-02'', site_id = Some ''nzd0001'', beach_slope = Some 0.1,
            cil = Some 0.08, ciu = Some 0.12\<rparr>]"
proof -
  have c: "columns series_example = [''nzd0001-01'', ''nzd0001-02'']"
    and r: "rows series_example \<noteq> []"
    by (simp_all add: series_example_def)
  have s: "estimate_site lib_example files_example (Some ''nzd0001'') transects_example =
     Inr [\<lparr>transect_id = ''nzd0001-01'', site_id = Some ''nzd0001'', beach_slope = Some 0.1,
                  cil = Some 0.08, ciu = Some 0.12\<rparr>,
                \<lparr>transect_id = ''nzd0001-02'', site_id = Some ''nzd0001'', beach_slope = Some 0.1,
                  cil = Some 0.08, ciu = Some 0.12\<rparr>]"
    by (simp add: estimate_site_def files_example_def align_example c estimate_keys_example
        lib_example_peak update_slopes_def set_beach_slope_def set_ci_def transects_example_def
        del: estimate_keys.simps)
  have u: "unique (map site_id (filter (needs_slope []) transects_example)) = [Some ''nzd0001'']"
    and n: "filter (needs_slope []) transects_example \<noteq> []"
    by (simp_all add: needs_slope_def transects_example_def unique_def)
  have 1: "estimate_slopes lib_example files_example [] transects_example =
     Inr (Some [\<lparr>transect_id = ''nzd0001-01'', site_id = Some ''nzd0001'', beach_slope = Some 0.1,
                  cil = Some 0.08, ciu = Some 0.12\<rparr>,
                \<lparr>transect_id = ''nzd0001-02'', site_id = Some ''nzd0001'', beach_slope = Some 0.1,
                  cil = Some 0.08, ciu = Some 0.12\<rparr>])"
    using n by (simp add: estimate_slopes_def u s)
  have 2: "estimate_slopes_for_site lib_example ''nzd0001'' series_example tides_example transects_example =
     Inr [\<lparr>transect_id = ''nzd0001-01'', site_id = Some ''nzd0001'', beach_slope = Some 0.05,
            cil = Some 0.04, ciu = Some 0.06\<rparr>,
          \<lparr>transect_id = ''nzd0001-02'', site_id = Some ''nzd0001'', beach_slope = Some 0.1,
            cil = Some 0.08, ciu = Some 0.12\<rparr>]"
    by (simp add: estimate_slopes_for_site_def transects_example_def align_example r c
        estimate_keys_example lib_example_peak update_site_slopes_def set_beach_slope_def set_ci_def Let_def
        del: estimate_keys.simps)
  show ?thesis using 1 2 by (simp add: transects_example_def)
qed

lemma align_dates_mismatch:
  "length (rows df) \<noteq> length tides \<Longrightarrow> align_dates df tides = Inl ValueError"
  by (simp add: align_dates_def)

lemma mask_zip:
  "length xs = length ys \<Longrightarrow>
   map snd (filter fst (zip (map (\<lambda>x. \<not> P x) xs) ys)) =
   map snd (filter (\<lambda>p. \<not> P (fst p)) (zip xs ys))"
  by (induction xs ys rule: list_induct2) auto

lemma mask_self:
  "map snd (filter (\<lambda>p. \<not> fst p) (zip (map P xs) (map f xs))) = map f (filter (\<lambda>x. \<not> P x) xs)"
  by (induction xs) auto

lemma filter_zip_fst:
  "length xs = length ys \<Longrightarrow>
   filter Q xs = map fst (filter (\<lambda>p. Q (fst p)) (zip xs ys))"
  by (induction xs ys rule: list_induct2) auto

lemma filter_zip_map_snd:
  "length xs = length ys \<Longrightarrow>
   map snd (filter (\<lambda>p. Q (fst p)) (zip xs (map g ys))) =
   map (\<lambda>p. g (snd p)) (filter (\<lambda>p. Q (fst p)) (zip xs ys))"
  by (induction xs ys rule: list_induct2) auto

lemma fit_inputs_paired:
  assumes "fit_inputs df tides key = Inr (Some (ds, cs, ts))"
  shows "length (rows df) = length tides"
    and "ds = map (\<lambda>p. fst (fst p)) (paired_rows df tides key)"
    and "cs = map (\<lambda>p. the (snd (fst p) key)) (paired_rows df tides key)"
    and "ts = map (\<lambda>p. snd (snd p)) (paired_rows df tides key)"
proof -
  let ?P = "\<lambda>r. snd r key = None"
  from assms have nall: "\<not> list_all (\<lambda>b. b) (map ?P (rows df))"
    by (auto simp: fit_inputs_def Let_def split: if_splits)
  from assms nall obtain tide where
    m: "mask_select (map Not (map ?P (rows df))) (map snd tides) = Inr tide"
    and r: "(ds, cs, ts) =
       (map snd (filter (\<lambda>p. \<not> fst p) (zip (map ?P (rows df)) (map fst (rows df)))),
        map (\<lambda>r. the (snd r key)) (filter (\<lambda>r. snd r key \<noteq> None) (rows df)), tide)"
    by (auto simp: fit_inputs_def Let_def split: if_splits sum.splits)
  from m show len: "length (rows df) = length tides"
    by (auto simp: mask_select_def split: if_splits)
  have f: "filter (\<lambda>r. \<not> ?P r) (rows df) = map fst (paired_rows df tides key)"
    unfolding paired_rows_def using filter_zip_fst[OF len, of "\<lambda>r. \<not> ?P r"] by simp
  from r have "ds = map fst (filter (\<lambda>r. \<not> ?P r) (rows df))" by (simp add: mask_self)
  then show "ds = map (\<lambda>p. fst (fst p)) (paired_rows df tides key)"
    unfolding f by (simp only: map_map comp_def)
  from r have "cs = map (\<lambda>r. the (snd r key)) (filter (\<lambda>r. \<not> ?P r) (rows df))" by simp
  then show "cs = map (\<lambda>p. the (snd (fst p) key)) (paired_rows df tides key)"
    unfolding f by (simp only: map_map comp_def)
  from m len have "tide = map snd (filter fst (zip (map (\<lambda>r. \<not> ?P r) (rows df)) (map snd tides)))"
    by (auto simp: mask_select_def comp_def split: if_splits)
  also have "\<dots> = map snd (filter (\<lambda>p. \<not> ?P (fst p)) (zip (rows df) (map snd tides)))"
    using len by (intro mask_zip) simp
  also have "\<dots> = map (\<lambda>p. snd (snd p)) (paired_rows df tides key)"
    unfolding paired_rows_def
    using filter_zip_map_snd[OF len, of "\<lambda>r. \<not> ?P r" snd] by simp
  finally show "ts = map (\<lambda>p. snd (snd p)) (paired_rows df tides key)" using r by simp
qed

lemma fit_inputs_mismatch:
  assumes "length (rows df) \<noteq> length tides" and "\<not> list_all (\<lambda>r. snd r key = None) (rows df)"
  shows "fit_inputs df tides key = Inl IndexError"
  using assms by (simp add: fit_inputs_def Let_def mask_select_def list_all_iff)

lemma estimate_site_mismatch:
  assumes "time_series files site = Some df" and "tides_csv files site = Some tides"
    and "length (rows df) \<noteq> length tides"
  shows "estimate_site lib files site transects = Inl ValueError"
  using assms by (simp add: estimate_site_def align_dates_mismatch)

lemma wrapper_mismatch:
  assumes "length (rows df) \<noteq> length tides"
    and "\<exists>t\<in>set transects. site_id t = Some site \<and> beach_slope t = None"
  shows "estimate_slopes_for_site lib site df tides transects = Inl ValueError"
proof -
  from assms(2) have "filter (\<lambda>t. site_id t = Some site \<and> beach_slope t = None) transects \<noteq> []"
    by (auto simp: filter_empty_conv)
  with assms(1) show ?thesis
    by (simp add: estimate_slopes_for_site_def Let_def align_dates_mismatch)
qed

lemma keys_dict_set: "fst ` set (dict_set d k v) = insert k (fst ` set d)"
proof (cases "k \<in> fst ` set d")
  case True
  have "map fst (map (\<lambda>p. if fst p = k then (k, v) else p) d) = map fst d"
    by (induction d) auto
  then have "fst ` set (map (\<lambda>p. if fst p = k then (k, v) else p) d) = fst ` set d"
    by (metis set_map)
  with True show ?thesis by (auto simp: dict_set_def)
next
  case False
  then show ?thesis by (simp add: dict_set_def)
qed

lemma estimate_keys_keys:
  "estimate_keys lib fm df tides keys acc = Inr est \<Longrightarrow> fst ` set est \<subseteq> fst ` set acc \<union> set keys"
proof (induction keys arbitrary: acc)
  case Nil
  then show ?case by simp
next
  case (Cons key keys)
  have skip: ?case if "estimate_keys lib fm df tides keys acc = Inr est"
    using Cons.IH[OF that] by auto
  show ?case
  proof (cases "fit_inputs df tides key")
    case (Inl e)
    with Cons.prems show ?thesis by simp
  next
    case (Inr inp)
    show ?thesis
    proof (cases inp)
      case None
      with Inr Cons.prems show ?thesis by (intro skip) simp
    next
      case (Some triple)
      obtain ds cs ts where t: "triple = (ds, cs, ts)" by (cases triple) auto
      show ?thesis
      proof (cases "tide_correct lib cs ts")
        case (Inl e)
        with Inr Some t Cons.prems show ?thesis by simp
      next
        case tc: (Inr tsall)
        show ?thesis
        proof (cases "integrate_power_spectrum lib ds tsall fm")
          case (Inl e)
          with Inr Some t tc Cons.prems show ?thesis by (intro skip) simp
        next
          case ips: (Inr v)
          with Inr Some t tc Cons.prems
          have "estimate_keys lib fm df tides keys (dict_set acc key v) = Inr est" by simp
          from Cons.IH[OF this] show ?thesis by (auto simp: keys_dict_set)
        qed
      qed
    qed
  qed
qed

lemma set_beach_slope_present:
  assumes "key \<in> set (map transect_id ts)"
  shows "map transect_id (set_beach_slope ts key v) = map transect_id ts"
    and "\<forall>i<length ts. transect_id (ts ! i) \<noteq> key \<longrightarrow> set_beach_slope ts key v ! i = ts ! i"
  using assms by (auto simp: set_beach_slope_def comp_def intro!: map_cong)

lemma set_ci_present:
  assumes "key \<in> set (map transect_id ts)"
  shows "map transect_id (set_ci ts key v) = map transect_id ts"
    and "\<forall>i<length ts. transect_id (ts ! i) \<noteq> key \<longrightarrow> set_ci ts key v ! i = ts ! i"
  using assms by (auto simp: set_ci_def comp_def intro!: map_cong)

lemma fold_guarded:
  assumes "\<And>ts k v. k \<in> set (map transect_id ts) \<Longrightarrow>
             map transect_id (f ts k v) = map transect_id ts \<and>
             (\<forall>i<length ts. transect_id (ts ! i) \<noteq> k \<longrightarrow> f ts k v ! i = ts ! i)"
  shows "map transect_id (fold (\<lambda>kv ts. if fst kv \<in> set (map transect_id ts) then f ts (fst kv) (g kv) else ts) est ts) =
           map transect_id ts \<and>
         (\<forall>i<length ts. transect_id (ts ! i) \<notin> fst ` set est \<longrightarrow>
            fold (\<lambda>kv ts. if fst kv \<in> set (map transect_id ts) then f ts (fst kv) (g kv) else ts) est ts ! i = ts ! i)"
proof (induction est arbitrary: ts)
  case Nil
  then show ?case by simp
next
  case (Cons kv est)
  let ?s = "if fst kv \<in> set (map transect_id ts) then f ts (fst kv) (g kv) else ts"
  have s: "map transect_id ?s = map transect_id ts \<and>
           (\<forall>i<length ts. transect_id (ts ! i) \<noteq> fst kv \<longrightarrow> ?s ! i = ts ! i)"
    using assms[of "fst kv" ts "g kv"] by simp
  then have len: "length ?s = length ts" by (metis length_map)
  have ids: "\<forall>i<length ts. transect_id (?s ! i) = transect_id (ts ! i)"
    using s len by (metis nth_map)
  from Cons.IH[of ?s] s len ids show ?case
    by (simp del: set_map)
qed

lemma set_beach_slope_frame:
  "k \<in> set (map transect_id ts) \<Longrightarrow>
     map transect_id (set_beach_slope ts k v) = map transect_id ts \<and>
     (\<forall>i<length ts. transect_id (ts ! i) \<noteq> k \<longrightarrow> set_beach_slope ts k v ! i = ts ! i)"
  using set_beach_slope_present[of k ts v] by simp

lemma set_ci_frame:
  "k \<in> set (map transect_id ts) \<Longrightarrow>
     map transect_id (set_ci ts k v) = map transect_id ts \<and>
     (\<forall>i<length ts. transect_id (ts ! i) \<noteq> k \<longrightarrow> set_ci ts k v ! i = ts ! i)"
  using set_ci_present[of k ts v] by simp

lemma update_site_slopes_frame:
  "map transect_id (update_site_slopes ts est) = map transect_id ts \<and>
   (\<forall>i<length ts. transect_id (ts ! i) \<notin> fst ` set est \<longrightarrow> update_site_slopes ts est ! i = ts ! i)"
proof -
  let ?f1 = "fold (\<lambda>kv ts. if fst kv \<in> set (map transect_id ts)
                       then set_beach_slope ts (fst kv) (fst (snd kv)) else ts) est ts"
  have 1: "map transect_id ?f1 = map transect_id ts \<and>
           (\<forall>i<length ts. transect_id (ts ! i) \<notin> fst ` set est \<longrightarrow> ?f1 ! i = ts ! i)"
    by (rule fold_guarded[where f = set_beach_slope and g = "\<lambda>kv. fst (snd kv)"])
       (rule set_beach_slope_frame)
  have 2: "map transect_id (update_site_slopes ts est) = map transect_id ?f1 \<and>
           (\<forall>i<length ?f1. transect_id (?f1 ! i) \<notin> fst ` set est \<longrightarrow>
              update_site_slopes ts est ! i = ?f1 ! i)"
    unfolding update_site_slopes_def
    by (rule fold_guarded[where f = set_ci and g = "\<lambda>kv. snd (snd kv)"])
       (rule set_ci_frame)
  from 1 have m: "map transect_id ?f1 = map transect_id ts" by (rule conjunct1)
  then have len: "length ?f1 = length ts" by (rule map_eq_imp_length_eq)
  have ids: "transect_id (?f1 ! i) = transect_id (ts ! i)" if "i < length ts" for i
  proof -
    from that len have "transect_id (?f1 ! i) = map transect_id ?f1 ! i" by simp
    also have "\<dots> = map transect_id ts ! i" by (simp only: m)
    also have "\<dots> = transect_id (ts ! i)" using that by simp
    finally show ?thesis .
  qed
  show ?thesis
  proof (intro conjI allI impI)
    from 1 2 show "map transect_id (update_site_slopes ts est) = map transect_id ts" by simp
  next
    fix i assume i: "i < length ts" and k: "transect_id (ts ! i) \<notin> fst ` set est"
    from 1 i k have a: "?f1 ! i = ts ! i" by blast
    from i len have "i < length ?f1" by simp
    moreover from ids[OF i] k have "transect_id (?f1 ! i) \<notin> fst ` set est" by simp
    ultimately have "update_site_slopes ts est ! i = ?f1 ! i" using 2 by blast
    with a show "update_site_slopes ts est ! i = ts ! i" by simp
  qed
qed

text \<open>
  The wrapper does what C7 says: with distinct ids, the table it writes has the transects of
  the site in their order, and every transect whose slope was not null is unchanged; when
  no transect of the site has a null slope nothing is estimated.
\<close>

lemma wrapper_result_shape:
  assumes "estimate_slopes_for_site lib site df tides transects = Inr out"
  shows "\<exists>est. fst ` set est \<subseteq>
                transect_id ` set (filter (\<lambda>t. site_id t = Some site \<and> beach_slope t = None) transects) \<and>
          (out = update_site_slopes (filter (\<lambda>t. site_id t = Some site) transects) est \<or>
           out = filter (\<lambda>t. site_id t = Some site) transects)"
proof -
  let ?at = "filter (\<lambda>t. site_id t = Some site) transects"
  let ?need = "filter (\<lambda>t. site_id t = Some site \<and> beach_slope t = None) transects"
  show ?thesis
  proof (cases "?need = []")
    case True
    with assms have "out = ?at" by (simp add: estimate_slopes_for_site_def Let_def)
    then show ?thesis by (intro exI[of _ "[]"]) simp
  next
    case False
    show ?thesis
    proof (cases "align_dates df tides")
      case (Inl e)
      with assms False show ?thesis by (simp add: estimate_slopes_for_site_def Let_def)
    next
      case (Inr p)
      obtain df' tides' where p: "p = (df', tides')" by (cases p) auto
      let ?ids = "filter (\<lambda>t. t \<in> set (columns df')) (map transect_id ?need)"
      from assms False Inr p have nz: "rows df' \<noteq> []"
        by (auto simp: estimate_slopes_for_site_def Let_def split: if_splits)
      show ?thesis
      proof (cases "find_tide_peak lib (index df') (map snd tides')")
        case (Inl e)
        with assms False \<open>align_dates df tides = Inr p\<close> p nz show ?thesis
          by (simp add: estimate_slopes_for_site_def Let_def)
      next
        case fp: (Inr fm)
        show ?thesis
        proof (cases "estimate_keys lib fm df' tides' ?ids []")
          case (Inl e)
          with assms False \<open>align_dates df tides = Inr p\<close> p nz fp show ?thesis
            by (simp add: estimate_slopes_for_site_def Let_def)
        next
          case ek: (Inr est)
          with assms False \<open>align_dates df tides = Inr p\<close> p nz fp
          have o: "out = (if est \<noteq> [] then update_site_slopes ?at est else ?at)"
            by (simp add: estimate_slopes_for_site_def Let_def)
          from estimate_keys_keys[OF ek] have "fst ` set est \<subseteq> set ?ids" by simp
          also have "\<dots> \<subseteq> transect_id ` set ?need" by auto
          finally have "fst ` set est \<subseteq> transect_id ` set ?need" .
          with o show ?thesis by (intro exI[of _ est]) simp
        qed
      qed
    qed
  qed
qed

lemma wrapper_keeps_solved:
  assumes "estimate_slopes_for_site lib site df tides transects = Inr out"
    and "distinct (map transect_id transects)"
  shows "map transect_id out = map transect_id (filter (\<lambda>t. site_id t = Some site) transects)"
    and "\<forall>i<length (filter (\<lambda>t. site_id t = Some site) transects).
           beach_slope (filter (\<lambda>t. site_id t = Some site) transects ! i) \<noteq> None \<longrightarrow>
           out ! i = filter (\<lambda>t. site_id t = Some site) transects ! i"
proof -
  let ?at = "filter (\<lambda>t. site_id t = Some site) transects"
  let ?need = "filter (\<lambda>t. site_id t = Some site \<and> beach_slope t = None) transects"
  from wrapper_result_shape[OF assms(1)]
  obtain est where k: "fst ` set est \<subseteq> transect_id ` set ?need"
    and o: "out = update_site_slopes ?at est \<or> out = ?at"
    by blast
  note fr = update_site_slopes_frame[of ?at est]
  from o show "map transect_id out = map transect_id ?at"
  proof
    assume "out = update_site_slopes ?at est"
    with fr show ?thesis by simp
  next
    assume "out = ?at" then show ?thesis by simp
  qed
  show "\<forall>i<length ?at. beach_slope (?at ! i) \<noteq> None \<longrightarrow> out ! i = ?at ! i"
  proof (intro allI impI)
    fix i assume i: "i < length ?at" and s: "beach_slope (?at ! i) \<noteq> None"
    from i have "?at ! i \<in> set ?at" by (rule nth_mem)
    then have in_t: "?at ! i \<in> set transects" by simp
    have inj: "inj_on transect_id (set transects)" using assms(2) by (simp add: distinct_map)
    have nk: "transect_id (?at ! i) \<notin> fst ` set est"
    proof
      assume "transect_id (?at ! i) \<in> fst ` set est"
      with k have "transect_id (?at ! i) \<in> transect_id ` set ?need" by (rule subsetD)
      then obtain t where t: "t \<in> set ?need" and eq: "transect_id (?at ! i) = transect_id t"
        by (rule imageE)
      from t have tt: "t \<in> set transects" and n: "beach_slope t = None" by simp_all
      from inj eq in_t tt have "?at ! i = t" by (rule inj_onD)
      with n s show False by simp
    qed
    from o show "out ! i = ?at ! i"
    proof
      assume "out = update_site_slopes ?at est"
      with fr i nk show ?thesis by simp
    next
      assume "out = ?at" then show ?thesis by simp
    qed
  qed
qed

lemma wrapper_nothing_to_do:
  assumes "\<forall>t\<in>set transects. site_id t = Some site \<longrightarrow> beach_slope t \<noteq> None"
  shows "estimate_slopes_for_site lib site df tides transects =
           Inr (filter (\<lambda>t. site_id t = Some site) transects)"
proof -
  from assms have "filter (\<lambda>t. site_id t = Some site \<and> beach_slope t = None) transects = []"
    by (auto simp: filter_empty_conv)
  then show ?thesis by (simp add: estimate_slopes_for_site_def Let_def)
qed

text \<open>
  C10. The tide of a transect's observations is selected by the column's non-null mask
  applied to the tide array by position. When the chainage table and the tide table differ
  in length the stage raises: the date comparison of the alignment step raises ValueError,
  in the script and in the wrapper, and a mask of the wrong length raises IndexError.
  Whenever the inputs of the fit are produced, the two tables have the same length and the
  dates, chainages and tides handed over are those of the rows at the same positions, for
  the positions where the column is not null.
\<close>

theorem tide_pairing_positional:
  "(length (rows df) \<noteq> length tides \<longrightarrow>
      align_dates df tides = Inl ValueError \<and>
      (time_series files site = Some df \<and> tides_csv files site = Some tides \<longrightarrow>
         estimate_site lib files site transects = Inl ValueError) \<and>
      ((\<exists>t\<in>set transects. site_id t = Some s \<and> beach_slope t = None) \<longrightarrow>
         estimate_slopes_for_site lib s df tides transects = Inl ValueError) \<and>
      (\<not> list_all (\<lambda>r. snd r key = None) (rows df) \<longrightarrow>
         fit_inputs df tides key = Inl IndexError)) \<and>
   (fit_inputs df tides key = Inr (Some (ds, cs, ts)) \<longrightarrow>
      length (rows df) = length tides \<and>
      ds = map (\<lambda>p. fst (fst p)) (paired_rows df tides key) \<and>
      cs = map (\<lambda>p. the (snd (fst p) key)) (paired_rows df tides key) \<and>
      ts = map (\<lambda>p. snd (snd p)) (paired_rows df tides key))"
  using align_dates_mismatch[of df tides] estimate_site_mismatch[of files site df tides lib transects]
    wrapper_mismatch[of df tides transects s lib] fit_inputs_mismatch[of df tides key]
    fit_inputs_paired[of df tides key ds cs ts]
  by blast

lemma short_tides_facts:
  "length (rows series_example) \<noteq> length short_tides_example"
  "\<not> list_all (\<lambda>r. snd r ''nzd0001-02'' = None) (rows series_example)"
  by (simp_all add: series_example_def short_tides_example_def)

lemma paired_rows_example:
  "map (\<lambda>p. (fst (fst p), the (snd (fst p) ''nzd0001-02''), snd p))
       (paired_rows series_example tides_example ''nzd0001-02'') =
     [(((2020, 1, 1), 79380000000000), 200, ((2020, 1, 1), 79200000000000), Some 0.5),
      (((2020, 2, 2), 79320000000000), 203, ((2020, 2, 2), 79200000000000), Some 0.3)]"
  by (simp add: paired_rows_def series_example_def tides_example_def)

theorem tide_pairing_positional_witness:
  "length (rows series_example) \<noteq> length short_tides_example \<and>
   align_dates series_example short_tides_example = Inl ValueError \<and>
   estimate_slopes_for_site lib_example ''nzd0001'' series_example short_tides_example
     transects_example = Inl ValueError \<and>
   estimate_site lib_example
     (files_example\<lparr>tides_csv := (\<lambda>s. Some short_tides_example)\<rparr>) (Some ''nzd0001'')
     transects_example = Inl ValueError \<and>
   fit_inputs series_example short_tides_example ''nzd0001-02'' = Inl IndexError \<and>
   fit_inputs series_example tides_example ''nzd0001-02'' =
     Inr (Some ([((2020, 1, 1), 79380000000000), ((2020, 2, 2), 79320000000000)],
                [200, 203], [Some 0.5, Some 0.3])) \<and>
   map (\<lambda>p. (fst (fst p), the (snd (fst p) ''nzd0001-02''), snd p))
       (paired_rows series_example tides_example ''nzd0001-02'') =
     [(((2020, 1, 1), 79380000000000), 200, ((2020, 1, 1), 79200000000000), Some 0.5),
      (((2020, 2, 2), 79320000000000), 203, ((2020, 2, 2), 79200000000000), Some 0.3)]"
proof -
  have t: "\<exists>t\<in>set transects_example. site_id t = Some ''nzd0001'' \<and> beach_slope t = None"
    by (simp add: transects_example_def)
  have f: "time_series (files_example\<lparr>tides_csv := (\<lambda>s. Some short_tides_example)\<rparr>) (Some ''nzd0001'')
             = Some series_example"
    "tides_csv (files_example\<lparr>tides_csv := (\<lambda>s. Some short_tides_example)\<rparr>) (Some ''nzd0001'')
             = Some short_tides_example"
    by (simp_all add: files_example_def)
  from tide_pairing_positional[of series_example short_tides_example
      "files_example\<lparr>tides_csv := (\<lambda>s. Some short_tides_example)\<rparr>" "Some ''nzd0001''"
      lib_example transects_example "''nzd0001''" "''nzd0001-02''"]
    short_tides_facts t f
  have a: "align_dates series_example short_tides_example = Inl ValueError"
    "estimate_slopes_for_site lib_example ''nzd0001'' series_example short_tides_example
       transects_example = Inl ValueError"
    "estimate_site lib_example
       (files_example\<lparr>tides_csv := (\<lambda>s. Some short_tides_example)\<rparr>) (Some ''nzd0001'')
       transects_example = Inl ValueError"
    "fit_inputs series_example short_tides_example ''nzd0001-02'' = Inl IndexError"
    by blast+
  from a short_tides_facts(1) fit_inputs_example(2) paired_rows_example show ?thesis by simp
qed

section \<open>Tide aligner and corrector: proofs\<close>

subsection \<open>Shape of the corrected table\<close>

text \<open>
  Whenever the correction returns, \<open>corrections\<close> and \<open>tidally_corrected\<close> have the index of the
  raw table, row for row, and a row of the raw table whose date, as stored, is not the date
  of a tide row has the correction 0 in every column.
\<close>

lemma correct_with_rows:
  assumes "correct_with fill_gaps ts raw tides = Inr (corr, tc)"
  shows "map fst corr = index raw" and "index tc = index raw"
    and "length (rows tc) = length (rows raw)"
proof -
  from assms obtain slopes aligned where
    al: "reindex (Some Zero) (tide_corrections (zip (map transect_id ts) slopes) tides) (index raw) = Inr aligned"
    and corr: "corr = zip (index raw) aligned"
    and tc: "tc = add_corrections raw (columns (tide_corrections (zip (map transect_id ts) slopes) tides)) aligned"
    by (auto simp: correct_with_def Let_def split: sum.splits)
  from reindex_length[OF al] have len: "length aligned = length (rows raw)" by (simp add: index_def)
  then show "map fst corr = index raw" by (simp add: corr index_def)
  from len show "length (rows tc) = length (rows raw)" by (simp add: tc add_corrections_def)
  have "map fst (map (\<lambda>(r, k). (fst r, g r k)) (zip xs ys)) = map fst xs"
    if "length ys = length xs" for xs :: "(timestamp \<times> (string \<Rightarrow> real option)) list"
      and ys :: "(string \<Rightarrow> correction option) list" and g :: "_ \<Rightarrow> _ \<Rightarrow> string \<Rightarrow> corrected option"
    using that by (induction xs ys rule: list_induct2') auto
  with len show "index tc = index raw"
    by (simp add: tc add_corrections_def index_def)
qed

lemma unmatched_row_zero:
  assumes "correct_with fill_gaps ts raw tides = Inr (corr, tc)"
    and "i < length (rows raw)"
    and "fst (rows raw ! i) \<notin> fst ` set tides"
  shows "snd (corr ! i) = (\<lambda>c. Some Zero)"
proof -
  from assms(1) obtain slopes aligned where
    al: "reindex (Some Zero) (tide_corrections (zip (map transect_id ts) slopes) tides) (index raw) = Inr aligned"
    and corr: "corr = zip (index raw) aligned"
    by (auto simp: correct_with_def Let_def split: sum.splits)
  from reindex_length[OF al] have len: "length aligned = length (rows raw)" by (simp add: index_def)
  have ix: "index (tide_corrections (zip (map transect_id ts) slopes) tides) = map fst tides"
    by (simp add: index_def tide_corrections_def o_def)
  from assms(2) have i: "i < length (index raw)" by (simp add: index_def)
  from assms(2) have ti: "index raw ! i = fst (rows raw ! i)" by (simp add: index_def)
  have m: "fst m \<in> fst ` set tides"
    if "m \<in> set (rows (tide_corrections (zip (map transect_id ts) slopes) tides))" for m
    using that by (force simp: tide_corrections_def)
  have "\<not> (\<exists>m\<in>set (rows (tide_corrections (zip (map transect_id ts) slopes) tides)).
           fst m = index raw ! i \<and> aligned ! i = snd m)"
  proof
    assume "\<exists>m\<in>set (rows (tide_corrections (zip (map transect_id ts) slopes) tides)).
           fst m = index raw ! i \<and> aligned ! i = snd m"
    then obtain x where x: "x \<in> set (rows (tide_corrections (zip (map transect_id ts) slopes) tides))"
      and fx: "fst x = index raw ! i" by blast
    from m[OF x] fx ti assms(3) show False by simp
  qed
  with reindex_nth[OF al i] have "aligned ! i = (\<lambda>c. Some Zero)"
    by blast
  with len assms(2) i show ?thesis by (simp add: corr)
qed

subsection \<open>Observations off the 10-minute grid\<close>

lemma sat_obs: "sat_times observed_example = map fst fetched_tides_example"
  by (simp add: sat_times_def observed_example_def fetched_tides_example_def round_10min_def ten_minutes_def Let_def)

lemma sel_obs: "select_tides observed_example fetched_tides_example = fetched_tides_example"
  unfolding select_tides_def sat_obs by (simp add: fetched_tides_example_def)

lemma ts_site: "filter (\<lambda>t. site_id t = Some ''nzd0001'') (drop_duplicates_id sloped_example) = sloped_site_example"
  by (simp add: drop_duplicates_id_def sloped_example_def sloped_site_example_def)

lemma cw_obs:
  "map_sum id (table_cells [''nzd0001-01'', ''nzd0001-02''])
     (correct_with no_gaps (sloped_site_example) observed_example fetched_tides_example) =
   Inr ([(((2020, 1, 1), 79380000000000), [Some Zero, Some Zero]),
         (((2020, 1, 17), 79440000000000), [Some Zero, Some Zero]),
         (((2020, 2, 2), 79320000000000), [Some Zero, Some Zero])],
        [(((2020, 1, 1), 79380000000000), [Some (Sum (Some 100) Zero), Some (Sum (Some 200) Zero)]),
         (((2020, 1, 17), 79440000000000), [Some (Sum (Some 102) Zero), Some (Sum None Zero)]),
         (((2020, 2, 2), 79320000000000), [Some (Sum (Some 101) Zero), Some (Sum (Some 203) Zero)])])"
  by (simp add: correct_with_def no_gaps_def sloped_site_example_def observed_example_def
      fetched_tides_example_def tide_corrections_def reindex_def index_def add_corrections_def
      table_cells_def Let_def)

lemma wrapper_obs:
  "map_sum id (table_cells [''nzd0001-01'', ''nzd0001-02''])
     (apply_wrapper no_gaps ''nzd0001'' sloped_example observed_example fetched_tides_example) =
   Inr ([(((2020, 1, 1), 79380000000000), [Some Zero, Some Zero]),
         (((2020, 1, 17), 79440000000000), [Some Zero, Some Zero]),
         (((2020, 2, 2), 79320000000000), [Some Zero, Some Zero])],
        [(((2020, 1, 1), 79380000000000), [Some (Sum (Some 100) Zero), Some (Sum (Some 200) Zero)]),
         (((2020, 1, 17), 79440000000000), [Some (Sum (Some 102) Zero), Some (Sum None Zero)]),
         (((2020, 2, 2), 79320000000000), [Some (Sum (Some 101) Zero), Some (Sum (Some 203) Zero)])])"
proof -
  have ne: "fetched_tides_example \<noteq> []" by (simp add: fetched_tides_example_def)
  have ne2: "sloped_site_example \<noteq> []" by (simp add: sloped_site_example_def)
  have "apply_wrapper no_gaps ''nzd0001'' sloped_example observed_example fetched_tides_example =
        (case correct_with no_gaps (sloped_site_example) observed_example fetched_tides_example of
           Inl e \<Rightarrow> Inl SystemExit | Inr r \<Rightarrow> Inr r)"
    unfolding apply_wrapper_def ts_site sel_obs Let_def using ne ne2 by simp
  with cw_obs show ?thesis by (cases "correct_with no_gaps (sloped_site_example) observed_example fetched_tides_example") auto
qed

lemma fetch_none: "fetch_missing g observed_example fetched_tides_example = fetched_tides_example"
  unfolding fetch_missing_def sat_obs by (simp add: list_all_iff)

lemma script_obs:
  "map_sum id (map_option (table_cells [''nzd0001-01'', ''nzd0001-02'']))
     (process_site no_gaps g ''nzd0001'' sloped_example observed_example fetched_tides_example) =
   Inr (Some ([(((2020, 1, 1), 79380000000000), [Some Zero, Some Zero]),
         (((2020, 1, 17), 79440000000000), [Some Zero, Some Zero]),
         (((2020, 2, 2), 79320000000000), [Some Zero, Some Zero])],
        [(((2020, 1, 1), 79380000000000), [Some (Sum (Some 100) Zero), Some (Sum (Some 200) Zero)]),
         (((2020, 1, 17), 79440000000000), [Some (Sum (Some 102) Zero), Some (Sum None Zero)]),
         (((2020, 2, 2), 79320000000000), [Some (Sum (Some 101) Zero), Some (Sum (Some 203) Zero)])]))"
proof -
  have ne: "fetched_tides_example \<noteq> []" by (simp add: fetched_tides_example_def)
  have ne2: "sloped_site_example \<noteq> []" by (simp add: sloped_site_example_def)
  have "process_site no_gaps g ''nzd0001'' sloped_example observed_example fetched_tides_example =
        (case correct_with no_gaps (sloped_site_example) observed_example fetched_tides_example of
           Inl e \<Rightarrow> Inl e | Inr r \<Rightarrow> Inr (Some r))"
    unfolding process_site_def ts_site sel_obs fetch_none Let_def using ne ne2 by simp
  with cw_obs show ?thesis by (cases "correct_with no_gaps (sloped_site_example) observed_example fetched_tides_example") auto
qed

text \<open>
  C3 at three observations taken at 22:03, 22:04 and 22:02 with the tides of 22:00 of the
  same days. The rounded observation dates are the tide dates and every tide row is
  selected, but the corrections are then aligned on the dates of the raw table as stored,
  where no tide row is found: in the wrapper and in the script every row gets the
  correction 0, although each has a tide sample at its rounded date.
\<close>

theorem tide_at_rounded_date_not_applied:
  "sat_times observed_example = map fst fetched_tides_example \<and>
   select_tides observed_example fetched_tides_example = fetched_tides_example \<and>
   map_sum id (table_cells [''nzd0001-01'', ''nzd0001-02''])
     (apply_wrapper no_gaps ''nzd0001'' sloped_example observed_example fetched_tides_example) =
   Inr ([(((2020, 1, 1), 79380000000000), [Some Zero, Some Zero]),
         (((2020, 1, 17), 79440000000000), [Some Zero, Some Zero]),
         (((2020, 2, 2), 79320000000000), [Some Zero, Some Zero])],
        [(((2020, 1, 1), 79380000000000), [Some (Sum (Some 100) Zero), Some (Sum (Some 200) Zero)]),
         (((2020, 1, 17), 79440000000000), [Some (Sum (Some 102) Zero), Some (Sum None Zero)]),
         (((2020, 2, 2), 79320000000000), [Some (Sum (Some 101) Zero), Some (Sum (Some 203) Zero)])]) \<and>
   map_sum id (map_option (table_cells [''nzd0001-01'', ''nzd0001-02'']))
     (process_site no_gaps (\<lambda>d. None) ''nzd0001'' sloped_example observed_example fetched_tides_example) =
   Inr (Some ([(((2020, 1, 1), 79380000000000), [Some Zero, Some Zero]),
         (((2020, 1, 17), 79440000000000), [Some Zero, Some Zero]),
         (((2020, 2, 2), 79320000000000), [Some Zero, Some Zero])],
        [(((2020, 1, 1), 79380000000000), [Some (Sum (Some 100) Zero), Some (Sum (Some 200) Zero)]),
         (((2020, 1, 17), 79440000000000), [Some (Sum (Some 102) Zero), Some (Sum None Zero)]),
         (((2020, 2, 2), 79320000000000), [Some (Sum (Some 101) Zero), Some (Sum (Some 203) Zero)])]))"
  using sat_obs sel_obs wrapper_obs script_obs[of "\<lambda>d. None"] by simp

subsection \<open>No tide row selected\<close>



















end
